theory Spec2Isabelle
  imports Main
begin

section \<open>The reactivation campaign: data model\<close>

text \<open>
  The job in \<^verbatim>\<open>src/main.py\<close> reads a spreadsheet of contacts and moves every contact
  through two outreach steps, an email and, at least 24 hours later, an SMS. The
  spreadsheet is the only state kept between runs.

  A row is the list of cell strings that \<^verbatim>\<open>read_all_rows\<close> returns for it; the sheet
  is the list of rows, the header first. Strings are lists of 8-bit characters, so a
  character beyond ASCII stands as its UTF-8 bytes.
\<close>

type_synonym row = "string list"

definition BATCH_SIZE :: nat where "BATCH_SIZE = 30"
definition DELAY_HOURS :: int where "DELAY_HOURS = 24"
definition STATUS_COL_IDX :: nat where "STATUS_COL_IDX = 8"
definition DATE_SENT_COL_IDX :: nat where "DATE_SENT_COL_IDX = 9"
definition CONTACT_ID_COL_IDX :: nat where "CONTACT_ID_COL_IDX = 7"
definition FIRST_NAME_COL_IDX :: nat where "FIRST_NAME_COL_IDX = 1"
definition TAB_NAME :: string where "TAB_NAME = ''Sheet1''"
definition EMAIL_SUBJECT :: string where "EMAIL_SUBJECT = ''Important Update''"

text \<open>
  \<^verbatim>\<open>EMAIL_BODY_TEMPLATE.format(first_name=...)\<close> and
  \<^verbatim>\<open>SMS_BODY_TEMPLATE.format(first_name=...)\<close>: each template has the one
  placeholder, so formatting is the text before it, the name, and the text after it.
  The typographic apostrophe of the email text is written as its three UTF-8 bytes.
\<close>

definition EMAIL_BODY_TEMPLATE_format :: "string \<Rightarrow> string" where
  \<open>EMAIL_BODY_TEMPLATE_format first_name =
     ''<div style="font-size: 16px; font-family: Arial, sans-serif; color: #333;">\<newline><p>Hi ''
     @ first_name @
     '',</p>\<newline>\<newline><p>It'' @ [CHR 0xE2, CHR 0x80, CHR 0x99] @
     ''s been a while since we saw you! I was updating our client records and realized you qualify for our "Returning Client" status.</p>\<newline>\<newline><p>That means if you move with us again, you automatically get <strong>5% off</strong> your quote.</p>\<newline>\<newline><p>We just opened up a few spots for estimates next week. Are you moving soon (or know someone who is)?</p>\<newline>\<newline><p>Best,<br>Jim</p>\<newline></div>''\<close>

definition SMS_BODY_TEMPLATE_format :: "string \<Rightarrow> string" where
  \<open>SMS_BODY_TEMPLATE_format first_name =
     ''Hey '' @ first_name @
     '', Jim here from Splendid Moving.\<newline>\<newline>Did you see my email about the 5% loyalty discount?\<newline>\<newline>If you are moving soon, you can use this link to get a quote with the 5% off applied: https://services.msgsndr.com/urls/l/QGRUkVTzw \<newline>\<newline>Let me know if it works!''\<close>

subsection \<open>Strings\<close>

text \<open>
  Python's \<^verbatim>\<open>str.strip()\<close> removes the whitespace characters at both ends of a
  string. They are the code points U+0009 to U+000D, U+001C to U+001F, U+0020, U+0085,
  U+00A0, U+1680, U+2000 to U+200A, U+2028, U+2029, U+202F, U+205F and U+3000. In UTF-8
  the first ten are one byte each, U+0085 and U+00A0 are the two bytes C2 85 and C2 A0,
  and the others are three bytes long.
\<close>

definition is_space1 :: "char \<Rightarrow> bool" where
  "is_space1 c =
     (let n = (of_char c :: nat)
      in (9 \<le> n \<and> n \<le> 13) \<or> (28 \<le> n \<and> n \<le> 31) \<or> n = 32)"

definition is_space2 :: "char \<Rightarrow> char \<Rightarrow> bool" where
  "is_space2 a b = (a = CHR 0xC2 \<and> (b = CHR 0x85 \<or> b = CHR 0xA0))"

definition is_space3 :: "char \<Rightarrow> char \<Rightarrow> char \<Rightarrow> bool" where
  "is_space3 a b c =
     (let n = (of_char c :: nat)
      in (a = CHR 0xE1 \<and> b = CHR 0x9A \<and> c = CHR 0x80)
         \<or> (a = CHR 0xE2 \<and> b = CHR 0x80 \<and>
              ((128 \<le> n \<and> n \<le> 138) \<or> n = 168 \<or> n = 169 \<or> n = 175))
         \<or> (a = CHR 0xE2 \<and> b = CHR 0x81 \<and> c = CHR 0x9F)
         \<or> (a = CHR 0xE3 \<and> b = CHR 0x80 \<and> c = CHR 0x80))"

text \<open>
  \<^verbatim>\<open>lstrip\<close> drops whitespace from the front. \<^verbatim>\<open>rstrip\<close> drops it from the back;
  \<open>rstrip_rev\<close> does so on the reversed string, where the bytes of a character come
  last byte first.
\<close>

fun lstrip :: "string \<Rightarrow> string" where
  "lstrip (a # b # c # s) =
     (if is_space1 a then lstrip (b # c # s)
      else if is_space2 a b then lstrip (c # s)
      else if is_space3 a b c then lstrip s
      else a # b # c # s)"
| "lstrip [a, b] =
     (if is_space1 a then lstrip [b]
      else if is_space2 a b then []
      else [a, b])"
| "lstrip [a] = (if is_space1 a then [] else [a])"
| "lstrip [] = []"

fun rstrip_rev :: "string \<Rightarrow> string" where
  "rstrip_rev (c # b # a # s) =
     (if is_space1 c then rstrip_rev (b # a # s)
      else if is_space2 b c then rstrip_rev (a # s)
      else if is_space3 a b c then rstrip_rev s
      else c # b # a # s)"
| "rstrip_rev [c, b] =
     (if is_space1 c then rstrip_rev [b]
      else if is_space2 b c then []
      else [c, b])"
| "rstrip_rev [c] = (if is_space1 c then [] else [c])"
| "rstrip_rev [] = []"

definition rstrip :: "string \<Rightarrow> string" where
  "rstrip s = rev (rstrip_rev (rev s))"

definition strip :: "string \<Rightarrow> string" where
  "strip s = rstrip (lstrip s)"

text \<open>The decimal text of a count, as an f-string prints it.\<close>

fun str_nat :: "nat \<Rightarrow> string" where
  "str_nat n =
     (if n < 10 then [char_of (48 + n)]
      else str_nat (n div 10) @ [char_of (48 + n mod 10)])"

declare str_nat.simps [simp del]

subsection \<open>Reading a row\<close>

definition get_status :: "row \<Rightarrow> string" where
  "get_status row =
     (if length row > STATUS_COL_IDX then strip (row ! STATUS_COL_IDX) else '''')"

definition get_date_sent :: "row \<Rightarrow> string option" where
  "get_date_sent row =
     (if length row > DATE_SENT_COL_IDX then Some (strip (row ! DATE_SENT_COL_IDX))
      else None)"

text \<open>
  \<^verbatim>\<open>row[CONTACT_ID_COL_IDX] if len(row) > CONTACT_ID_COL_IDX else None\<close> and
  \<^verbatim>\<open>row[FIRST_NAME_COL_IDX] if len(row) > FIRST_NAME_COL_IDX else "there"\<close>, the two
  expressions that both branches of \<^verbatim>\<open>main\<close> evaluate for a row.
\<close>

definition get_contact_id :: "row \<Rightarrow> string option" where
  "get_contact_id row =
     (if length row > CONTACT_ID_COL_IDX then Some (row ! CONTACT_ID_COL_IDX) else None)"

definition get_first_name :: "row \<Rightarrow> string" where
  "get_first_name row =
     (if length row > FIRST_NAME_COL_IDX then row ! FIRST_NAME_COL_IDX else ''there'')"

subsection \<open>Time and exceptions\<close>

text \<open>
  A \<^verbatim>\<open>datetime\<close> is naive (no time zone) or aware (with a UTC offset); both count
  microseconds, as does a \<^verbatim>\<open>timedelta\<close>. \<^verbatim>\<open>datetime.now()\<close> is naive. Python
  subtracts two naive values and raises \<^verbatim>\<open>TypeError\<close> when exactly one is aware.

  The exceptions of a run: \<^verbatim>\<open>TypeError\<close> from that subtraction, \<^verbatim>\<open>ValueError\<close> for an
  email without subject, a request to the messaging API that raises, an HTTP status
  other than 200 and 201, a reply whose body is not JSON, and a call of the spreadsheet
  service that raises.
\<close>

datatype datetime = Naive int | Aware int int

datatype error =
  TypeError | ValueError | RequestError | HttpError nat | JSONDecodeError | SheetsError

definition timedelta_hours :: "int \<Rightarrow> int" where
  "timedelta_hours h = h * 3600000000"

fun datetime_sub :: "datetime \<Rightarrow> datetime \<Rightarrow> error + int" where
  "datetime_sub (Naive a) (Naive b) = Inr (a - b)"
| "datetime_sub (Aware a oa) (Aware b ob) = Inr ((a - oa) - (b - ob))"
| "datetime_sub _ _ = Inl TypeError"

subsection \<open>The world outside\<close>

text \<open>
  What a run does to the outside is kept as a trace of calls, in order: a request
  posted to the messaging API by \<^verbatim>\<open>send_ghl_message\<close> (tagged with the sheet row it
  is sent for), a call of \<^verbatim>\<open>update_cell\<close>, a summary posted to the webhook by
  \<^verbatim>\<open>send_notification\<close>. Lines printed to standard output are not part of the model.
\<close>

datatype message_type = Email | SMS

datatype event =
    Ghl_message nat string message_type string "string option"
  | Update_cell string nat nat string
  | Notification string

record world =
  sheet :: "row list"
  trace :: "event list"

text \<open>
  What the run cannot decide itself comes from the environment: the clock reading when
  a given row is handled, the standard library's \<^verbatim>\<open>datetime.fromisoformat\<close>
  (\<open>None\<close> for its \<^verbatim>\<open>ValueError\<close>) and \<^verbatim>\<open>isoformat\<close>, the answer of the messaging
  API to the request made for a given row (\<open>None\<close> when the request itself raises, else
  the HTTP status code and whether the body is JSON), whether the spreadsheet client can
  be built and the rows read, and whether the write of a given value to a given cell
  goes through.
\<close>

record env =
  now :: "nat \<Rightarrow> int"
  fromisoformat :: "string \<Rightarrow> datetime option"
  isoformat :: "int \<Rightarrow> string"
  http_post :: "nat \<Rightarrow> (nat \<times> bool) option"
  read_ok :: bool
  write_ok :: "nat \<Rightarrow> nat \<Rightarrow> string \<Rightarrow> bool"

subsection \<open>Calls that may raise\<close>

text \<open>
  A call takes the world and returns the world it leaves, with its value or the
  exception it raises. \<open>and_then\<close> is one statement after another, the second skipped
  when the first raises; \<open>try_except\<close> is \<^verbatim>\<open>try: ... except Exception: ...\<close>, every
  exception of the model being an \<^verbatim>\<open>Exception\<close>.
\<close>

type_synonym 'a action = "world \<Rightarrow> (error + 'a) \<times> world"

definition ok :: "'a \<Rightarrow> 'a action" where
  "ok x w = (Inr x, w)"

definition raise :: "error \<Rightarrow> 'a action" where
  "raise err w = (Inl err, w)"

definition and_then :: "'a action \<Rightarrow> ('a \<Rightarrow> 'b action) \<Rightarrow> 'b action" where
  "and_then m f w =
     (case m w of
        (Inl err, w') \<Rightarrow> (Inl err, w')
      | (Inr x, w') \<Rightarrow> f x w')"

definition try_except :: "'a action \<Rightarrow> (error \<Rightarrow> 'a action) \<Rightarrow> 'a action" where
  "try_except m handler w =
     (case m w of
        (Inl err, w') \<Rightarrow> handler err w'
      | (Inr x, w') \<Rightarrow> (Inr x, w'))"

subsection \<open>The wrappers of \<^verbatim>\<open>src/utils.py\<close>\<close>

text \<open>
  \<^verbatim>\<open>send_notification\<close> catches whatever its request raises, so it always returns.
  \<^verbatim>\<open>send_ghl_message\<close> raises for an email without subject before any request is
  made; after the request it raises for a status other than 200 and 201, and
  \<^verbatim>\<open>response.json()\<close> raises for a body that is not JSON.
\<close>

definition send_notification :: "string \<Rightarrow> unit action" where
  "send_notification message w = (Inr (), w\<lparr>trace := trace w @ [Notification message]\<rparr>)"

definition send_ghl_message ::
  "env \<Rightarrow> nat \<Rightarrow> string \<Rightarrow> message_type \<Rightarrow> string \<Rightarrow> string option \<Rightarrow> unit action" where
  "send_ghl_message e row_idx contact_id mtype content subject w =
     (if mtype = Email \<and> (subject = None \<or> subject = Some []) then (Inl ValueError, w)
      else
        (let w' = w\<lparr>trace := trace w @
                    [Ghl_message row_idx contact_id mtype content
                       (if mtype = Email then subject else None)]\<rparr>
         in (case http_post e row_idx of
               None \<Rightarrow> (Inl RequestError, w')
             | Some (code, json) \<Rightarrow>
                 (if code \<noteq> 200 \<and> code \<noteq> 201 then (Inl (HttpError code), w')
                  else if \<not> json then (Inl JSONDecodeError, w')
                  else (Inr (), w')))))"

text \<open>
  A cell write that goes through reaches the sheet as the spreadsheet service applies
  it: the addressed cell takes the value, and a row (or sheet) too short for the address
  is first filled up with empty cells (or empty rows). A write that does not go through
  raises and leaves the sheet as it was. \<^verbatim>\<open>update_status\<close> writes the status cell and
  then, when a date column and value are given, the date cell, each with its own call
  of \<^verbatim>\<open>update_cell\<close>.
\<close>

definition put :: "'a \<Rightarrow> 'a list \<Rightarrow> nat \<Rightarrow> 'a \<Rightarrow> 'a list" where
  "put d xs i v = (xs @ replicate (Suc i - length xs) d)[i := v]"

definition row_at :: "row list \<Rightarrow> nat \<Rightarrow> row" where
  "row_at s r = (if r < length s then s ! r else [])"

definition update_cell :: "env \<Rightarrow> string \<Rightarrow> nat \<Rightarrow> nat \<Rightarrow> string \<Rightarrow> unit action" where
  "update_cell e tab_name row_index col_index v w =
     (let w' = w\<lparr>trace := trace w @ [Update_cell tab_name row_index col_index v]\<rparr>
      in if write_ok e row_index col_index v then
           (Inr (),
            w'\<lparr>sheet := put [] (sheet w) row_index
                          (put '''' (row_at (sheet w) row_index) col_index v)\<rparr>)
         else (Inl SheetsError, w'))"

definition update_status ::
  "env \<Rightarrow> string \<Rightarrow> nat \<Rightarrow> nat \<Rightarrow> string \<Rightarrow> nat option \<Rightarrow> string option \<Rightarrow> unit action" where
  "update_status e tab_name row_index status_col_index status date_col_index date_val =
     and_then (update_cell e tab_name row_index status_col_index status)
       (\<lambda>u. case (date_col_index, date_val) of
              (Some c, Some v) \<Rightarrow> update_cell e tab_name row_index c v
            | _ \<Rightarrow> ok ())"

text \<open>
  \<^verbatim>\<open>GoogleSheetClient(SPREADSHEET_ID)\<close> followed by \<^verbatim>\<open>read_all_rows(TAB_NAME)\<close>: the rows
  of the sheet, or the exception of the spreadsheet service.
\<close>

definition read_all_rows :: "env \<Rightarrow> (row list) action" where
  "read_all_rows e w = (if read_ok e then (Inr (sheet w), w) else (Inl SheetsError, w))"

section \<open>The batch processor of \<^verbatim>\<open>src/main.py\<close>\<close>

subsection \<open>Scanning\<close>

text \<open>
  The first loop of \<^verbatim>\<open>main\<close> collects the sheet index (\<open>i + 1\<close>, past the header) of
  every data row whose status reads \<^verbatim>\<open>"Email Sent"\<close>.
\<close>

definition active_batch_indices :: "row list \<Rightarrow> nat list" where
  "active_batch_indices data_rows =
     [i + 1. (i, row) \<leftarrow> enumerate 0 data_rows, get_status row = ''Email Sent'']"

text \<open>
  The selection loop of the new batch: it appends the index of each row whose status
  reads \<^verbatim>\<open>"New"\<close> or \<^verbatim>\<open>""\<close> and breaks once \<open>BATCH_SIZE\<close> indices are collected.
\<close>

fun select_new :: "(nat \<times> row) list \<Rightarrow> nat list \<Rightarrow> nat list" where
  "select_new [] acc = acc"
| "select_new ((i, row) # rest) acc =
     (let status = get_status row
      in if status = ''New'' \<or> status = '''' then
           (let acc' = acc @ [i + 1]
            in if length acc' \<ge> BATCH_SIZE then acc'
               else select_new rest acc')
         else select_new rest acc)"

definition new_batch_indices :: "row list \<Rightarrow> nat list" where
  "new_batch_indices data_rows = select_new (enumerate 0 data_rows) []"

subsection \<open>One row of each batch\<close>

text \<open>
  The body of each loop, for the row at \<open>row_idx\<close> and the count so far: it returns the
  new count, or raises. \<^verbatim>\<open>continue\<close> returns the count unchanged. In the SMS loop the
  date is parsed inside a \<^verbatim>\<open>try\<close> that catches \<^verbatim>\<open>ValueError\<close> only, and the
  subtraction from \<^verbatim>\<open>datetime.now()\<close> stands outside any \<^verbatim>\<open>try\<close>. The send and the
  status write stand in one \<^verbatim>\<open>try\<close>, and the handler writes the failure status.
\<close>

definition sms_step :: "env \<Rightarrow> bool \<Rightarrow> row list \<Rightarrow> nat \<Rightarrow> nat \<Rightarrow> nat action" where
  "sms_step e dry_run rows row_idx processed_count =
     (let row = rows ! row_idx;
          contact_id = get_contact_id row;
          date_sent_str = get_date_sent row;
          first_name = get_first_name row
      in (case contact_id of
            None \<Rightarrow> ok processed_count
          | Some cid \<Rightarrow>
             (if cid = [] then ok processed_count
              else
               (case date_sent_str of
                  None \<Rightarrow> ok processed_count
                | Some ds \<Rightarrow>
                   (if ds = [] then ok processed_count
                    else
                     (case fromisoformat e ds of
                        None \<Rightarrow> ok processed_count
                      | Some date_sent \<Rightarrow>
                         (case datetime_sub (Naive (now e row_idx)) date_sent of
                            Inl err \<Rightarrow> raise err
                          | Inr time_diff \<Rightarrow>
                             (if time_diff < timedelta_hours DELAY_HOURS
                              then ok processed_count
                              else
                               (let msg_body = SMS_BODY_TEMPLATE_format first_name
                                in if \<not> dry_run then
                                     try_except
                                       (and_then
                                          (send_ghl_message e row_idx cid SMS msg_body None)
                                          (\<lambda>u. and_then
                                             (update_status e TAB_NAME row_idx STATUS_COL_IDX
                                                ''Done'' None None)
                                             (\<lambda>u. ok (processed_count + 1))))
                                       (\<lambda>err. and_then
                                          (update_status e TAB_NAME row_idx STATUS_COL_IDX
                                             ''SMS Failed'' None None)
                                          (\<lambda>u. ok processed_count))
                                   else ok (processed_count + 1))))))))))"

definition email_step :: "env \<Rightarrow> bool \<Rightarrow> row list \<Rightarrow> nat \<Rightarrow> nat \<Rightarrow> nat action" where
  "email_step e dry_run rows row_idx new_batch_count =
     (let row = rows ! row_idx;
          contact_id = get_contact_id row;
          first_name = get_first_name row
      in (case contact_id of
            None \<Rightarrow> ok new_batch_count
          | Some cid \<Rightarrow>
             (if cid = [] then ok new_batch_count
              else
               (let email_body = EMAIL_BODY_TEMPLATE_format first_name
                in if \<not> dry_run then
                     try_except
                       (and_then
                          (send_ghl_message e row_idx cid Email email_body (Some EMAIL_SUBJECT))
                          (\<lambda>u. let current_time = isoformat e (now e row_idx)
                               in and_then
                                    (update_status e TAB_NAME row_idx STATUS_COL_IDX
                                       ''Email Sent'' (Some DATE_SENT_COL_IDX)
                                       (Some current_time))
                                    (\<lambda>u. ok (new_batch_count + 1))))
                       (\<lambda>err. and_then
                          (update_status e TAB_NAME row_idx STATUS_COL_IDX
                             ''Email Failed'' None None)
                          (\<lambda>u. ok new_batch_count))
                   else ok (new_batch_count + 1)))))"

text \<open>
  A \<^verbatim>\<open>for\<close> loop over row indices that threads the count; an exception that leaves the
  body ends the loop.
\<close>

fun for_each :: "(nat \<Rightarrow> nat \<Rightarrow> nat action) \<Rightarrow> nat list \<Rightarrow> nat \<Rightarrow> nat action" where
  "for_each body [] count = ok count"
| "for_each body (row_idx # rest) count =
     and_then (body row_idx count) (for_each body rest)"

subsection \<open>A run\<close>

text \<open>
  \<^verbatim>\<open>main(dry_run)\<close>: the rows are read once, and every decision of the run is taken on
  that reading. The result is the world the run leaves behind, with the exception that
  ended the run if one did.
\<close>

definition main :: "env \<Rightarrow> bool \<Rightarrow> unit action" where
  "main e dry_run =
     and_then (read_all_rows e)
       (\<lambda>rows.
          if rows = [] then ok ()
          else
            let data_rows = drop 1 rows;
                active = active_batch_indices data_rows
            in if active \<noteq> [] then
                 and_then (for_each (sms_step e dry_run rows) active 0)
                   (\<lambda>processed_count.
                      if processed_count > 0 then
                        (let msg = ''Completed SMS batch for '' @ str_nat processed_count
                                     @ '' contacts.''
                         in if \<not> dry_run then send_notification msg else ok ())
                      else ok ())
               else
                 let batch = new_batch_indices data_rows
                 in if batch = [] then ok ()
                    else
                      and_then (for_each (email_step e dry_run rows) batch 0)
                        (\<lambda>new_batch_count.
                           if new_batch_count > 0 then
                             (let msg = ''Started new batch. Sent Email to ''
                                          @ str_nat new_batch_count @ '' contacts.''
                              in if \<not> dry_run then send_notification msg else ok ())
                           else ok ()))"

definition run_job :: "env \<Rightarrow> unit action" where
  "run_job e = main e False"

section \<open>Vocabulary of the properties\<close>

text \<open>
  The row an event concerns, the events a run adds to the trace, and the data rows that
  count as new, in sheet order.
\<close>

fun event_row :: "event \<Rightarrow> nat option" where
  "event_row (Ghl_message r c m b s) = Some r"
| "event_row (Update_cell t r c v) = Some r"
| "event_row (Notification m) = None"

definition new_events :: "world \<Rightarrow> world \<Rightarrow> event list" where
  "new_events w w' = drop (length (trace w)) (trace w')"

text \<open>
  The data rows whose status reads \<^verbatim>\<open>"New"\<close> or \<^verbatim>\<open>""\<close>, by sheet index, in row
  order; and the status cell as it stands in the sheet, before any stripping.
\<close>

definition eligible_indices :: "row list \<Rightarrow> nat list" where
  "eligible_indices data_rows =
     map Suc (filter (\<lambda>i. get_status (data_rows ! i) = ''New'' \<or> get_status (data_rows ! i) = [])
                [0..<length data_rows])"

definition status_cell :: "row \<Rightarrow> string" where
  "status_cell row = (if length row > STATUS_COL_IDX then row ! STATUS_COL_IDX else [])"

text \<open>
  A row has a contact id when the cell exists and is not empty. An active row is due
  when it has a contact id and its date cell, stripped, is not empty and parses to a
  naive time at least \<open>DELAY_HOURS\<close> before the clock reading for that row.
\<close>

definition contact_of :: "row \<Rightarrow> string" where
  "contact_of row = (case get_contact_id row of None \<Rightarrow> [] | Some cid \<Rightarrow> cid)"

definition has_contact :: "row \<Rightarrow> bool" where
  "has_contact row = (contact_of row \<noteq> [])"

definition sms_due :: "env \<Rightarrow> row \<Rightarrow> nat \<Rightarrow> bool" where
  "sms_due e row r =
     (has_contact row \<and>
      (case get_date_sent row of
         None \<Rightarrow> False
       | Some ds \<Rightarrow>
           ds \<noteq> [] \<and>
           (case fromisoformat e ds of
              None \<Rightarrow> False
            | Some (Naive t) \<Rightarrow> \<not> now e r - t < timedelta_hours DELAY_HOURS
            | Some (Aware t off) \<Rightarrow> False)))"

text \<open>The calls that handling row \<open>r\<close> can make, in the SMS step and in the email step.\<close>

definition sms_event :: "row list \<Rightarrow> nat \<Rightarrow> event \<Rightarrow> bool" where
  "sms_event rows r ev =
     (ev = Ghl_message r (contact_of (rows ! r)) SMS
             (SMS_BODY_TEMPLATE_format (get_first_name (rows ! r))) None
      \<or> ev = Update_cell TAB_NAME r STATUS_COL_IDX ''Done''
      \<or> ev = Update_cell TAB_NAME r STATUS_COL_IDX ''SMS Failed'')"

definition email_event :: "env \<Rightarrow> row list \<Rightarrow> nat \<Rightarrow> event \<Rightarrow> bool" where
  "email_event e rows r ev =
     (ev = Ghl_message r (contact_of (rows ! r)) Email
             (EMAIL_BODY_TEMPLATE_format (get_first_name (rows ! r))) (Some EMAIL_SUBJECT)
      \<or> ev = Update_cell TAB_NAME r STATUS_COL_IDX ''Email Sent''
      \<or> ev = Update_cell TAB_NAME r DATE_SENT_COL_IDX (isoformat e (now e r))
      \<or> ev = Update_cell TAB_NAME r STATUS_COL_IDX ''Email Failed'')"

text \<open>
  The moves a status may make in one run: none, from new to \<^verbatim>\<open>"Email Sent"\<close> or
  \<^verbatim>\<open>"Email Failed"\<close>, and from \<^verbatim>\<open>"Email Sent"\<close> to \<^verbatim>\<open>"Done"\<close> or \<^verbatim>\<open>"SMS Failed"\<close>.
\<close>

definition allowed_move :: "string \<Rightarrow> string \<Rightarrow> bool" where
  "allowed_move s s' =
     (s' = s
      \<or> (s = ''New'' \<or> s = []) \<and> (s' = ''Email Sent'' \<or> s' = ''Email Failed'')
      \<or> s = ''Email Sent'' \<and> (s' = ''Done'' \<or> s' = ''SMS Failed''))"

text \<open>
  A call preserves a property of the world when the world it leaves has the property
  whenever the world it starts from has, whether it returns or raises.
\<close>

definition preserves :: "(world \<Rightarrow> bool) \<Rightarrow> 'a action \<Rightarrow> bool" where
  "preserves J m = (\<forall>w. J w \<longrightarrow> J (snd (m w)))"

text \<open>
  A world \<open>w\<close> is framed by \<open>T\<close> and \<open>E\<close> over \<open>w0\<close> when it has as many rows as \<open>w0\<close>,
  agrees with \<open>w0\<close> on every row outside \<open>T\<close>, has in every row a status that is an
  allowed move from that of \<open>w0\<close>, and its trace is that of \<open>w0\<close> followed by
  notifications and by events that \<open>E\<close> allows for a row in \<open>T\<close>.
\<close>

definition framed ::
  "world \<Rightarrow> (nat \<Rightarrow> bool) \<Rightarrow> (nat \<Rightarrow> event \<Rightarrow> bool) \<Rightarrow> world \<Rightarrow> bool" where
  "framed w0 T E w =
     (length (sheet w) = length (sheet w0) \<and>
      (\<forall>j. \<not> T j \<longrightarrow> sheet w ! j = sheet w0 ! j) \<and>
      (\<forall>j. allowed_move (get_status (sheet w0 ! j)) (get_status (sheet w ! j))) \<and>
      (\<exists>evs. trace w = trace w0 @ evs \<and>
         (\<forall>ev \<in> set evs. (\<exists>m. ev = Notification m) \<or> (\<exists>r. T r \<and> E r ev))))"

text \<open>The rows a run acts on, and the events it may add for them, by the branch it takes.\<close>

definition touched :: "env \<Rightarrow> bool \<Rightarrow> row list \<Rightarrow> nat \<Rightarrow> bool" where
  "touched e dry_run rows j =
     (\<not> dry_run \<and>
      (if active_batch_indices (drop 1 rows) \<noteq> []
       then j \<in> set (active_batch_indices (drop 1 rows)) \<and> sms_due e (rows ! j) j
       else j \<in> set (new_batch_indices (drop 1 rows)) \<and> has_contact (rows ! j)))"

definition run_event :: "env \<Rightarrow> row list \<Rightarrow> nat \<Rightarrow> event \<Rightarrow> bool" where
  "run_event e rows r ev =
     (if active_batch_indices (drop 1 rows) \<noteq> [] then sms_event rows r ev
      else email_event e rows r ev)"

text \<open>
  The rows for which an email request was made, in the order of the requests; a call
  mails \<open>rs\<close> when these are the rows of the events it adds, whether it returns or raises.
\<close>

fun emailed_rows :: "event list \<Rightarrow> nat list" where
  "emailed_rows [] = []"
| "emailed_rows (Ghl_message r c Email b s # evs) = r # emailed_rows evs"
| "emailed_rows (ev # evs) = emailed_rows evs"

definition mails :: "nat list \<Rightarrow> 'a action \<Rightarrow> bool" where
  "mails rs m = (\<forall>w. \<exists>evs. trace (snd (m w)) = trace w @ evs \<and> emailed_rows evs = rs)"

text \<open>A call returns when it raises in no world.\<close>

definition returns :: "'a action \<Rightarrow> bool" where
  "returns m = (\<forall>w. \<exists>x. fst (m w) = Inr x)"

subsection \<open>Sample data\<close>

text \<open>
  A clock that reads 2024-03-03T06:00:00 throughout, counted in microseconds from
  2024-03-01T00:00:00; the timestamps the sample sheets use; a messaging API that
  refuses the request made for row 2 and accepts every other; a spreadsheet service
  that works. In the second environment the spreadsheet service accepts the write of
  \<^verbatim>\<open>"Email Sent"\<close> to a status cell and fails on every other write.

  The sample sheets share a header row. One has three active rows, the third too recent
  for its SMS, a new row and a finished row; one has new rows only, among them a row
  too short to have a contact id; one has a single new row; one has two active rows,
  the first with a UTC offset in its send date.
\<close>

definition sample_env :: env where
  "sample_env =
     \<lparr>now = (\<lambda>r. 194400000000),
      fromisoformat =
        (\<lambda>s. if s = ''2024-03-01T09:00:00'' then Some (Naive 32400000000)
             else if s = ''2024-03-02T20:00:00'' then Some (Naive 158400000000)
             else if s = ''2024-03-01T09:00:00+00:00'' then Some (Aware 32400000000 0)
             else None),
      isoformat = (\<lambda>t. ''2024-03-03T06:00:00''),
      http_post = (\<lambda>r. if r = 2 then Some (500, True) else Some (200, True)),
      read_ok = True,
      write_ok = (\<lambda>r c v. True)\<rparr>"

definition failing_sheets_env :: env where
  "failing_sheets_env =
     sample_env\<lparr>write_ok := (\<lambda>r c v. c = STATUS_COL_IDX \<and> v = ''Email Sent'')\<rparr>"

definition header :: row where
  "header = [''Full name'', ''First name'', ''Email'', ''Phone'', ''Move date'', ''Movers'',
             ''Rate'', ''Contact ID'', ''Status'']"

definition contact_row :: "string \<Rightarrow> string \<Rightarrow> string \<Rightarrow> string \<Rightarrow> row" where
  "contact_row first_name contact_id status date_sent =
     [''Jane Doe'', first_name, ''j@x.com'', ''555-1234'', [], [], [], contact_id, status,
      date_sent]"

definition active_world :: world where
  "active_world =
     \<lparr>sheet = [header,
               contact_row ''Ann'' ''c1'' ''Email Sent'' ''2024-03-01T09:00:00'',
               contact_row ''Bob'' ''c2'' ''Email Sent'' ''2024-03-01T09:00:00'',
               contact_row ''Cy'' ''c3'' ''Email Sent'' ''2024-03-02T20:00:00'',
               contact_row ''Di'' ''c4'' ''New'' [],
               contact_row ''Ed'' ''c5'' ''Done'' ''2024-03-01T09:00:00''],
      trace = []\<rparr>"


definition single_world :: world where
  "single_world = \<lparr>sheet = [header, contact_row ''Jane'' ''c123'' [] []], trace = []\<rparr>"

definition aware_world :: world where
  "aware_world =
     \<lparr>sheet = [header,
               contact_row ''Ann'' ''c1'' ''Email Sent'' ''2024-03-01T09:00:00+00:00'',
               contact_row ''Bob'' ''c2'' ''Email Sent'' ''2024-03-01T09:00:00''],
      trace = []\<rparr>"

text \<open>
  A sheet whose one data row has a status cell with a no-break space (U+00A0) before
  \<^verbatim>\<open>Email Sent\<close> and a space after it; and a sheet with 32 rows that count as new, the
  first of them without a contact id.
\<close>

definition padded_world :: world where
  "padded_world =
     \<lparr>sheet = [header,
               contact_row ''Ann'' ''c1'' ([CHR 0xC2, CHR 0xA0] @ ''Email Sent '')
                 ''2024-03-01T09:00:00''],
      trace = []\<rparr>"

definition crowded_world :: world where
  "crowded_world =
     \<lparr>sheet = header # [''Al Roe'', ''Al''] # replicate 31 (contact_row ''Jane'' ''c123'' [] []),
      trace = []\<rparr>"

section \<open>Cells and scans: auxiliary facts\<close>

lemma put_length: "length (put d xs i v) = max (length xs) (Suc i)"
  by (auto simp: put_def)

lemma put_nth_same: "put d xs i v ! i = v"
  by (simp add: put_def)

lemma put_nth_other: "j \<noteq> i \<Longrightarrow> j < length xs \<Longrightarrow> put d xs i v ! j = xs ! j"
  by (simp add: put_def nth_append)

lemma put_in_range: "i < length xs \<Longrightarrow> put d xs i v = xs[i := v]"
  by (simp add: put_def)

lemma strip_consts:
  "strip ''Done'' = ''Done''" "strip ''SMS Failed'' = ''SMS Failed''"
  "strip ''Email Sent'' = ''Email Sent''" "strip ''Email Failed'' = ''Email Failed''"
  "strip [] = []"
  by (simp_all add: strip_def rstrip_def is_space1_def is_space2_def is_space3_def)

lemma get_status_put_status: "get_status (put [] row STATUS_COL_IDX v) = strip v"
  by (simp add: get_status_def put_length put_nth_same less_max_iff_disj)

lemma get_status_put_date:
  "get_status (put [] row DATE_SENT_COL_IDX v) = get_status row"
  by (auto simp: get_status_def put_def STATUS_COL_IDX_def DATE_SENT_COL_IDX_def nth_append strip_consts)

lemma get_status_strip: "get_status row = strip (status_cell row)"
  by (simp add: get_status_def status_cell_def strip_consts)

lemma indices_filter:
  "[f i. (i, row) \<leftarrow> enumerate n xs, P row]
     = map f (filter (\<lambda>i. P (xs ! (i - n))) [n..<n + length xs])"
proof (induction xs arbitrary: n)
  case Nil
  then show ?case by simp
next
  case (Cons x xs)
  have shift: "(x # xs) ! (i - n) = xs ! (i - Suc n)" if "Suc n \<le> i" for i
  proof -
    from that have "i - n = Suc (i - Suc n)" by arith
    then show ?thesis by simp
  qed
  have "filter (\<lambda>i. P ((x # xs) ! (i - n))) [Suc n..<Suc n + length xs]
          = filter (\<lambda>i. P (xs ! (i - Suc n))) [Suc n..<Suc n + length xs]"
    by (rule filter_cong) (simp_all add: shift del: upt_Suc)
  then show ?case
    using Cons.IH[of "Suc n"] by (simp add: upt_conv_Cons del: upt_Suc)
qed

lemma in_set_indices:
  "r \<in> set [i + 1. (i, row) \<leftarrow> enumerate 0 (drop 1 rows), P row]
     \<longleftrightarrow> 1 \<le> r \<and> r < length rows \<and> P (rows ! r)"
proof -
  have "r \<in> set [i + 1. (i, row) \<leftarrow> enumerate 0 (drop 1 rows), P row]
     \<longleftrightarrow> (\<exists>i. i < length rows - 1 \<and> P (rows ! (i + 1)) \<and> r = i + 1)"
    unfolding indices_filter by (auto simp: image_iff)
  also have "\<dots> \<longleftrightarrow> 1 \<le> r \<and> r < length rows \<and> P (rows ! r)"
  proof
    assume "\<exists>i. i < length rows - 1 \<and> P (rows ! (i + 1)) \<and> r = i + 1"
    then show "1 \<le> r \<and> r < length rows \<and> P (rows ! r)" by auto
  next
    assume a: "1 \<le> r \<and> r < length rows \<and> P (rows ! r)"
    then have "r - 1 < length rows - 1 \<and> P (rows ! ((r - 1) + 1)) \<and> r = (r - 1) + 1"
      by auto
    then show "\<exists>i. i < length rows - 1 \<and> P (rows ! (i + 1)) \<and> r = i + 1" by blast
  qed
  finally show ?thesis .
qed

lemma distinct_indices: "distinct [i + 1. (i, row) \<leftarrow> enumerate n xs, P row]"
  unfolding indices_filter by (simp add: distinct_map inj_on_def)

lemma select_new_take:
  "length acc < BATCH_SIZE \<Longrightarrow>
     select_new xs acc =
       take BATCH_SIZE (acc @ [i + 1. (i, row) \<leftarrow> xs, get_status row = ''New'' \<or> get_status row = []])"
proof (induction xs arbitrary: acc)
  case Nil
  then show ?case by simp
next
  case (Cons p xs)
  obtain i row where p: "p = (i, row)" by (cases p)
  show ?case
  proof (cases "get_status row = ''New'' \<or> get_status row = []")
    case False
    then show ?thesis using Cons p by simp
  next
    case elig: True
    show ?thesis
    proof (cases "length (acc @ [i + 1]) \<ge> BATCH_SIZE")
      case True
      with Cons.prems have full: "length (acc @ [i + 1]) = BATCH_SIZE" by simp
      then have "BATCH_SIZE - length acc = Suc 0" by simp
      then show ?thesis using p elig full
        by (auto simp: Let_def)
    next
      case False
      then have "length (acc @ [i + 1]) < BATCH_SIZE" by simp
      from Cons.IH[OF this] show ?thesis
        using p elig False
        by (auto simp: Let_def)
    qed
  qed
qed

lemma new_batch_indices_take:
  "new_batch_indices data_rows = take BATCH_SIZE (eligible_indices data_rows)"
  using select_new_take[of "[]" "enumerate 0 data_rows"]
  by (simp add: new_batch_indices_def eligible_indices_def BATCH_SIZE_def indices_filter)

lemma active_in_sheet:
  "r \<in> set (active_batch_indices (drop 1 rows)) \<longleftrightarrow>
     1 \<le> r \<and> r < length rows \<and> get_status (rows ! r) = ''Email Sent''"
  unfolding active_batch_indices_def by (rule in_set_indices)

lemma eligible_in_sheet:
  "r \<in> set (eligible_indices (drop 1 rows)) \<longleftrightarrow>
     1 \<le> r \<and> r < length rows \<and> (get_status (rows ! r) = ''New'' \<or> get_status (rows ! r) = [])"
proof -
  have "eligible_indices (drop 1 rows) =
          [i + 1. (i, row) \<leftarrow> enumerate 0 (drop 1 rows),
             get_status row = ''New'' \<or> get_status row = []]"
    by (simp add: eligible_indices_def indices_filter)
  then show ?thesis by (simp only: in_set_indices)
qed

lemma batch_in_sheet:
  assumes "r \<in> set (new_batch_indices (drop 1 rows))"
  shows "1 \<le> r \<and> r < length rows \<and> (get_status (rows ! r) = ''New'' \<or> get_status (rows ! r) = [])"
proof -
  from assms have "r \<in> set (eligible_indices (drop 1 rows))"
    unfolding new_batch_indices_take by (rule in_set_takeD)
  then show ?thesis by (simp only: eligible_in_sheet)
qed

lemma distinct_eligible: "distinct (eligible_indices data_rows)"
  by (simp add: eligible_indices_def distinct_map)

section \<open>Calls: proof rules\<close>

text \<open>
  A property of the world that every call of a block preserves is preserved by the
  block, however its calls are sequenced, caught or looped over.
\<close>

lemma preservesD: "preserves J m \<Longrightarrow> J w \<Longrightarrow> J (snd (m w))"
  by (simp add: preserves_def)

lemma preserves_ok: "preserves J (ok x)"
  by (simp add: preserves_def ok_def)

lemma preserves_raise: "preserves J (raise err)"
  by (simp add: preserves_def raise_def)

lemma preserves_and_then:
  assumes "preserves J m" and "\<And>x. preserves J (f x)"
  shows "preserves J (and_then m f)"
  unfolding preserves_def
proof (intro allI impI)
  fix w
  assume j: "J w"
  obtain res w' where m: "m w = (res, w')" by (cases "m w")
  from preservesD[OF assms(1) j] m have j': "J w'" by simp
  show "J (snd (and_then m f w))"
  proof (cases res)
    case (Inl err)
    with m j' show ?thesis by (simp add: and_then_def)
  next
    case (Inr x)
    with m preservesD[OF assms(2) j', of x] show ?thesis by (simp add: and_then_def)
  qed
qed

lemma preserves_try_except:
  assumes "preserves J m" and "\<And>err. preserves J (handler err)"
  shows "preserves J (try_except m handler)"
  unfolding preserves_def
proof (intro allI impI)
  fix w
  assume j: "J w"
  obtain res w' where m: "m w = (res, w')" by (cases "m w")
  from preservesD[OF assms(1) j] m have j': "J w'" by simp
  show "J (snd (try_except m handler w))"
  proof (cases res)
    case (Inl err)
    with m preservesD[OF assms(2) j', of err] show ?thesis by (simp add: try_except_def)
  next
    case (Inr x)
    with m j' show ?thesis by (simp add: try_except_def)
  qed
qed

lemma preserves_for_each:
  assumes "\<And>r n. r \<in> set rs \<Longrightarrow> preserves J (body r n)"
  shows "preserves J (for_each body rs n)"
  using assms
proof (induction rs arbitrary: n)
  case Nil
  show ?case by (simp add: preserves_ok)
next
  case (Cons r rs)
  have "preserves J (and_then (body r n) (for_each body rs))"
  proof (rule preserves_and_then)
    show "preserves J (body r n)" by (rule Cons.prems) simp
  next
    fix x
    show "preserves J (for_each body rs x)"
      by (rule Cons.IH) (rule Cons.prems, simp)
  qed
  then show ?case by simp
qed

lemma update_status_plain:
  "update_status e t r sc s None None = and_then (update_cell e t r sc s) (\<lambda>u. ok ())"
  by (simp add: update_status_def)

lemma update_status_dated:
  "update_status e t r sc s (Some c) (Some v) =
     and_then (update_cell e t r sc s) (\<lambda>u. update_cell e t r c v)"
  by (simp add: update_status_def)

section \<open>What a call may touch\<close>

lemma framed_refl: "framed w0 T E w0"
  by (simp add: framed_def allowed_move_def)

lemma framed_event:
  assumes f: "framed w0 T E w"
    and s: "sheet w' = sheet w"
    and t: "trace w' = trace w @ evs'"
    and ev: "\<forall>ev \<in> set evs'. (\<exists>m. ev = Notification m) \<or> (\<exists>r. T r \<and> E r ev)"
  shows "framed w0 T E w'"
proof -
  from f obtain evs where evs: "trace w = trace w0 @ evs"
    "\<forall>ev \<in> set evs. (\<exists>m. ev = Notification m) \<or> (\<exists>r. T r \<and> E r ev)"
    unfolding framed_def by (elim conjE exE) simp
  have a: "length (sheet w') = length (sheet w0)"
    using f s by (simp add: framed_def)
  have b: "\<forall>j. \<not> T j \<longrightarrow> sheet w' ! j = sheet w0 ! j"
    using f s by (simp add: framed_def)
  have c: "\<forall>j. allowed_move (get_status (sheet w0 ! j)) (get_status (sheet w' ! j))"
    using f s by (simp add: framed_def)
  have d: "trace w' = trace w0 @ (evs @ evs')"
    using evs(1) t by simp
  have e: "\<forall>ev \<in> set (evs @ evs'). (\<exists>m. ev = Notification m) \<or> (\<exists>r. T r \<and> E r ev)"
    using evs(2) ev by auto
  show ?thesis unfolding framed_def
    by (intro conjI exI[of _ "evs @ evs'"]) (rule a, rule b, rule c, rule d, rule e)
qed

lemma framed_write:
  assumes f: "framed w0 T E w"
    and r: "r < length (sheet w0)" and tr: "T r"
    and s: "sheet w' = (sheet w)[r := row']"
    and t: "trace w' = trace w"
    and m: "allowed_move (get_status (sheet w0 ! r)) (get_status row')"
  shows "framed w0 T E w'"
proof -
  from f have len: "length (sheet w) = length (sheet w0)"
    and keep: "\<forall>j. \<not> T j \<longrightarrow> sheet w ! j = sheet w0 ! j"
    and mv: "\<forall>j. allowed_move (get_status (sheet w0 ! j)) (get_status (sheet w ! j))"
    and tc: "\<exists>evs. trace w = trace w0 @ evs \<and>
         (\<forall>ev \<in> set evs. (\<exists>m. ev = Notification m) \<or> (\<exists>r. T r \<and> E r ev))"
    by (simp_all add: framed_def)
  have a: "length (sheet w') = length (sheet w0)" using s len by simp
  have b: "\<forall>j. \<not> T j \<longrightarrow> sheet w' ! j = sheet w0 ! j"
  proof (intro allI impI)
    fix j
    assume j: "\<not> T j"
    with tr have "j \<noteq> r" by auto
    with s keep j show "sheet w' ! j = sheet w0 ! j" by simp
  qed
  have c: "\<forall>j. allowed_move (get_status (sheet w0 ! j)) (get_status (sheet w' ! j))"
  proof
    fix j
    show "allowed_move (get_status (sheet w0 ! j)) (get_status (sheet w' ! j))"
    proof (cases "j = r")
      case True
      with s r len have "sheet w' ! j = row'" by simp
      with m True show ?thesis by simp
    next
      case False
      with s have "sheet w' ! j = sheet w ! j" by simp
      with mv show ?thesis by simp
    qed
  qed
  have d: "\<exists>evs. trace w' = trace w0 @ evs \<and>
         (\<forall>ev \<in> set evs. (\<exists>m. ev = Notification m) \<or> (\<exists>r. T r \<and> E r ev))"
    using tc t by simp
  show ?thesis unfolding framed_def
    by (intro conjI) (rule a, rule b, rule c, rule d)
qed

lemma preserves_send_notification: "preserves (framed w0 T E) (send_notification msg)"
  unfolding preserves_def
proof (intro allI impI)
  fix w
  assume f: "framed w0 T E w"
  show "framed w0 T E (snd (send_notification msg w))"
    by (rule framed_event[OF f, where evs' = "[Notification msg]"])
       (simp_all add: send_notification_def)
qed

lemma preserves_send_ghl_message:
  assumes "T r" and "E r (Ghl_message r cid m b (if m = Email then s else None))"
  shows "preserves (framed w0 T E) (send_ghl_message e r cid m b s)"
  unfolding preserves_def
proof (intro allI impI)
  fix w
  assume f: "framed w0 T E w"
  let ?w' = "snd (send_ghl_message e r cid m b s w)"
  have s: "sheet ?w' = sheet w"
    by (simp add: send_ghl_message_def Let_def split: option.splits prod.splits)
  have "trace ?w' = trace w \<or>
        trace ?w' = trace w @ [Ghl_message r cid m b (if m = Email then s else None)]"
    by (simp add: send_ghl_message_def Let_def split: option.splits prod.splits)
  then show "framed w0 T E ?w'"
  proof
    assume "trace ?w' = trace w"
    then show ?thesis
      by (intro framed_event[OF f s, where evs' = "[]"]) simp_all
  next
    assume "trace ?w' = trace w @ [Ghl_message r cid m b (if m = Email then s else None)]"
    then show ?thesis
      using assms by (intro framed_event[OF f s]) auto
  qed
qed

lemma preserves_update_cell:
  assumes r: "r < length (sheet w0)" and tr: "T r" and ev: "E r (Update_cell t r c v)"
    and m: "c = STATUS_COL_IDX \<and> allowed_move (get_status (sheet w0 ! r)) (strip v)
            \<or> c = DATE_SENT_COL_IDX"
  shows "preserves (framed w0 T E) (update_cell e t r c v)"
  unfolding preserves_def
proof (intro allI impI)
  fix w
  assume f: "framed w0 T E w"
  let ?w1 = "w\<lparr>trace := trace w @ [Update_cell t r c v]\<rparr>"
  have f1: "framed w0 T E ?w1"
    using tr ev by (intro framed_event[OF f, where evs' = "[Update_cell t r c v]"]) auto
  from f have len: "length (sheet w) = length (sheet w0)"
    and mv: "allowed_move (get_status (sheet w0 ! r)) (get_status (sheet w ! r))"
    by (simp_all add: framed_def)
  show "framed w0 T E (snd (update_cell e t r c v w))"
  proof (cases "write_ok e r c v")
    case False
    then have "snd (update_cell e t r c v w) = ?w1" by (simp add: update_cell_def)
    with f1 show ?thesis by simp
  next
    case True
    let ?row = "put [] (sheet w ! r) c v"
    from True r len have w': "snd (update_cell e t r c v w) = ?w1\<lparr>sheet := (sheet w)[r := ?row]\<rparr>"
      by (simp add: update_cell_def row_at_def put_in_range)
    have mv': "allowed_move (get_status (sheet w0 ! r)) (get_status ?row)"
      using m mv by (auto simp: get_status_put_status get_status_put_date)
    show ?thesis unfolding w'
      by (rule framed_write[OF f1 r tr _ _ mv']) simp_all
  qed
qed

section \<open>The two loop bodies\<close>

text \<open>
  A row that is not due, or any row of a dry run, makes the SMS step return or raise
  without a call; a due row of a real run makes it the guarded send and write.
\<close>

lemma sms_step_idle:
  assumes "\<not> (\<not> d \<and> sms_due e (rows ! r) r)"
  shows "(\<exists>k. sms_step e d rows r n = ok k) \<or> (\<exists>err. sms_step e d rows r n = raise err)"
  using assms
  by (auto simp: sms_step_def sms_due_def has_contact_def contact_of_def Let_def
      split: option.splits sum.splits datetime.splits)

lemma sms_step_due:
  assumes "\<not> d" and "sms_due e (rows ! r) r"
  shows "sms_step e d rows r n =
     try_except
       (and_then
          (send_ghl_message e r (contact_of (rows ! r)) SMS
             (SMS_BODY_TEMPLATE_format (get_first_name (rows ! r))) None)
          (\<lambda>u. and_then (update_status e TAB_NAME r STATUS_COL_IDX ''Done'' None None)
                 (\<lambda>u. ok (n + 1))))
       (\<lambda>err. and_then (update_status e TAB_NAME r STATUS_COL_IDX ''SMS Failed'' None None)
                 (\<lambda>u. ok n))"
  using assms
  by (auto simp: sms_step_def sms_due_def has_contact_def contact_of_def Let_def
      split: option.splits sum.splits datetime.splits)

lemma email_step_idle:
  assumes "\<not> (\<not> d \<and> has_contact (rows ! r))"
  shows "\<exists>k. email_step e d rows r n = ok k"
  using assms
  by (auto simp: email_step_def has_contact_def contact_of_def Let_def split: option.splits)

lemma email_step_due:
  assumes "\<not> d" and "has_contact (rows ! r)"
  shows "email_step e d rows r n =
     try_except
       (and_then
          (send_ghl_message e r (contact_of (rows ! r)) Email
             (EMAIL_BODY_TEMPLATE_format (get_first_name (rows ! r))) (Some EMAIL_SUBJECT))
          (\<lambda>u. and_then
                 (update_status e TAB_NAME r STATUS_COL_IDX ''Email Sent''
                    (Some DATE_SENT_COL_IDX) (Some (isoformat e (now e r))))
                 (\<lambda>u. ok (n + 1))))
       (\<lambda>err. and_then (update_status e TAB_NAME r STATUS_COL_IDX ''Email Failed'' None None)
                 (\<lambda>u. ok n))"
  using assms
  by (auto simp: email_step_def has_contact_def contact_of_def Let_def split: option.splits)

lemma sms_step_framed:
  assumes r: "r < length (sheet w0)"
    and st: "get_status (sheet w0 ! r) = ''Email Sent''"
    and T: "\<not> d \<and> sms_due e (sheet w0 ! r) r \<Longrightarrow> T r"
    and E: "\<And>ev. sms_event (sheet w0) r ev \<Longrightarrow> E r ev"
  shows "preserves (framed w0 T E) (sms_step e d (sheet w0) r n)"
proof (cases "\<not> d \<and> sms_due e (sheet w0 ! r) r")
  case False
  from sms_step_idle[OF False, of n] show ?thesis
    by (auto simp: preserves_ok preserves_raise)
next
  case True
  note tr = T[OF True]
  have marked: "preserves (framed w0 T E) (update_cell e TAB_NAME r STATUS_COL_IDX ''Done'')"
    by (rule preserves_update_cell[where T = T and E = E and r = r, OF r tr])
       (simp_all add: E sms_event_def st allowed_move_def strip_consts)
  have failed: "preserves (framed w0 T E) (update_cell e TAB_NAME r STATUS_COL_IDX ''SMS Failed'')"
    by (rule preserves_update_cell[where T = T and E = E and r = r, OF r tr])
       (simp_all add: E sms_event_def st allowed_move_def strip_consts)
  have send: "preserves (framed w0 T E)
      (send_ghl_message e r (contact_of (sheet w0 ! r)) SMS
             (SMS_BODY_TEMPLATE_format (get_first_name (sheet w0 ! r))) None)"
    by (rule preserves_send_ghl_message[where T = T and E = E and r = r, OF tr]) (simp add: E sms_event_def)
  from True have d: "\<not> d" and due: "sms_due e (sheet w0 ! r) r" by simp_all
  show ?thesis
    unfolding sms_step_due[OF d due] update_status_plain
    by (intro preserves_try_except preserves_and_then preserves_ok send marked failed)
qed

lemma email_step_framed:
  assumes r: "r < length (sheet w0)"
    and st: "get_status (sheet w0 ! r) = ''New'' \<or> get_status (sheet w0 ! r) = []"
    and T: "\<not> d \<and> has_contact (sheet w0 ! r) \<Longrightarrow> T r"
    and E: "\<And>ev. email_event e (sheet w0) r ev \<Longrightarrow> E r ev"
  shows "preserves (framed w0 T E) (email_step e d (sheet w0) r n)"
proof (cases "\<not> d \<and> has_contact (sheet w0 ! r)")
  case False
  from email_step_idle[OF False, of e n] show ?thesis
    by (auto simp: preserves_ok)
next
  case True
  note tr = T[OF True]
  have sent: "preserves (framed w0 T E) (update_cell e TAB_NAME r STATUS_COL_IDX ''Email Sent'')"
    using st by (intro preserves_update_cell[where T = T and E = E and r = r, OF r tr])
       (auto simp: E email_event_def allowed_move_def strip_consts)
  have dated: "preserves (framed w0 T E)
      (update_cell e TAB_NAME r DATE_SENT_COL_IDX (isoformat e (now e r)))"
    by (rule preserves_update_cell[where T = T and E = E and r = r, OF r tr]) (simp_all add: E email_event_def)
  have failed: "preserves (framed w0 T E) (update_cell e TAB_NAME r STATUS_COL_IDX ''Email Failed'')"
    using st by (intro preserves_update_cell[where T = T and E = E and r = r, OF r tr])
       (auto simp: E email_event_def allowed_move_def strip_consts)
  have send: "preserves (framed w0 T E)
      (send_ghl_message e r (contact_of (sheet w0 ! r)) Email
             (EMAIL_BODY_TEMPLATE_format (get_first_name (sheet w0 ! r))) (Some EMAIL_SUBJECT))"
    by (rule preserves_send_ghl_message[where T = T and E = E and r = r, OF tr]) (simp add: E email_event_def)
  from True have d: "\<not> d" and c: "has_contact (sheet w0 ! r)" by simp_all
  show ?thesis
    unfolding email_step_due[OF d c] update_status_plain update_status_dated
    by (intro preserves_try_except preserves_and_then preserves_ok send sent dated failed)
qed

section \<open>Runs: proof rules\<close>

text \<open>
  A property of the world holds after a run when it holds before and is preserved by
  the body of whichever loop runs and by the summary notification.
\<close>

lemma snd_read_then:
  "snd (and_then (read_all_rows e) f w) = (if read_ok e then snd (f (sheet w) w) else w)"
  by (simp add: and_then_def read_all_rows_def)

lemma main_invariant:
  assumes w0: "J w0"
    and sms: "\<And>r n. active_batch_indices (drop 1 (sheet w0)) \<noteq> [] \<Longrightarrow>
          r \<in> set (active_batch_indices (drop 1 (sheet w0))) \<Longrightarrow>
          preserves J (sms_step e dry_run (sheet w0) r n)"
    and email: "\<And>r n. active_batch_indices (drop 1 (sheet w0)) = [] \<Longrightarrow>
          r \<in> set (new_batch_indices (drop 1 (sheet w0))) \<Longrightarrow>
          preserves J (email_step e dry_run (sheet w0) r n)"
    and notify: "\<And>msg. \<not> dry_run \<Longrightarrow> preserves J (send_notification msg)"
  shows "J (snd (main e dry_run w0))"
proof (cases "read_ok e")
  case False
  with w0 show ?thesis by (simp add: main_def snd_read_then)
next
  case True
  note ok = True
  show ?thesis
  proof (cases "active_batch_indices (drop 1 (sheet w0)) = []")
    case True
    have loop: "preserves J (for_each (email_step e dry_run (sheet w0))
                  (new_batch_indices (drop 1 (sheet w0))) 0)"
      by (rule preserves_for_each) (rule email[OF True])
    have "preserves J
       (and_then (for_each (email_step e dry_run (sheet w0))
                    (new_batch_indices (drop 1 (sheet w0))) 0)
          (\<lambda>new_batch_count.
              if new_batch_count > 0 then
                (if \<not> dry_run
                 then send_notification (''Started new batch. Sent Email to ''
                                          @ str_nat new_batch_count @ '' contacts.'')
                 else ok ())
              else ok ()))"
      by (rule preserves_and_then[OF loop]) (simp add: preserves_ok notify)
    from preservesD[OF this w0] w0 True ok show ?thesis
      by (simp add: main_def snd_read_then Let_def ok_def cong del: if_weak_cong)
  next
    case False
    have loop: "preserves J (for_each (sms_step e dry_run (sheet w0))
                  (active_batch_indices (drop 1 (sheet w0))) 0)"
      by (rule preserves_for_each) (rule sms[OF False])
    have "preserves J
       (and_then (for_each (sms_step e dry_run (sheet w0))
                    (active_batch_indices (drop 1 (sheet w0))) 0)
          (\<lambda>processed_count.
              if processed_count > 0 then
                (if \<not> dry_run
                 then send_notification (''Completed SMS batch for ''
                                          @ str_nat processed_count @ '' contacts.'')
                 else ok ())
              else ok ()))"
      by (rule preserves_and_then[OF loop]) (simp add: preserves_ok notify)
    from preservesD[OF this w0] w0 False ok show ?thesis
      by (simp add: main_def snd_read_then Let_def ok_def cong del: if_weak_cong)
  qed
qed

section \<open>What a run may touch\<close>

text \<open>
  Every run is framed: it keeps the number of rows, changes only the rows it acts on,
  moves every status by an allowed move, and adds to the trace only notifications and
  the calls made for the rows it acts on.
\<close>

lemma main_framed:
  "framed w0 (touched e d (sheet w0)) (run_event e (sheet w0)) (snd (main e d w0))"
proof (rule main_invariant)
  show "framed w0 (touched e d (sheet w0)) (run_event e (sheet w0)) w0"
    by (rule framed_refl)
next
  fix r n
  assume a: "active_batch_indices (drop 1 (sheet w0)) \<noteq> []"
    and r: "r \<in> set (active_batch_indices (drop 1 (sheet w0)))"
  from r have r': "r < length (sheet w0)" "get_status (sheet w0 ! r) = ''Email Sent''"
    by (simp_all only: active_in_sheet)
  show "preserves (framed w0 (touched e d (sheet w0)) (run_event e (sheet w0)))
          (sms_step e d (sheet w0) r n)"
  proof (rule sms_step_framed[OF r'])
    assume "\<not> d \<and> sms_due e (sheet w0 ! r) r"
    with a r show "touched e d (sheet w0) r" unfolding touched_def by simp
  next
    fix ev
    assume "sms_event (sheet w0) r ev"
    with a show "run_event e (sheet w0) r ev" unfolding run_event_def by simp
  qed
next
  fix r n
  assume a: "active_batch_indices (drop 1 (sheet w0)) = []"
    and r: "r \<in> set (new_batch_indices (drop 1 (sheet w0)))"
  from batch_in_sheet[OF r] have r': "r < length (sheet w0)"
    "get_status (sheet w0 ! r) = ''New'' \<or> get_status (sheet w0 ! r) = []"
    by simp_all
  show "preserves (framed w0 (touched e d (sheet w0)) (run_event e (sheet w0)))
          (email_step e d (sheet w0) r n)"
  proof (rule email_step_framed[OF r'])
    assume "\<not> d \<and> has_contact (sheet w0 ! r)"
    with a r show "touched e d (sheet w0) r" unfolding touched_def by simp
  next
    fix ev
    assume "email_event e (sheet w0) r ev"
    with a show "run_event e (sheet w0) r ev" unfolding run_event_def by simp
  qed
next
  fix msg
  show "preserves (framed w0 (touched e d (sheet w0)) (run_event e (sheet w0)))
          (send_notification msg)"
    by (rule preserves_send_notification)
qed

lemma run_event_row: "run_event e rows r ev \<Longrightarrow> event_row ev = Some r"
  by (auto simp: run_event_def sms_event_def email_event_def split: if_splits)

lemma main_length: "length (sheet (snd (main e d w0))) = length (sheet w0)"
  using main_framed[of w0 e d] by (simp add: framed_def)

lemma main_untouched_row:
  "\<not> touched e d (sheet w0) j \<Longrightarrow> sheet (snd (main e d w0)) ! j = sheet w0 ! j"
  using main_framed[of w0 e d] by (simp add: framed_def)

lemma main_status:
  "allowed_move (get_status (sheet w0 ! j)) (get_status (sheet (snd (main e d w0)) ! j))"
  using main_framed[of w0 e d] by (simp add: framed_def)

lemma main_events:
  assumes "ev \<in> set (new_events w0 (snd (main e d w0)))"
  shows "(\<exists>m. ev = Notification m) \<or>
         (\<exists>r. touched e d (sheet w0) r \<and> run_event e (sheet w0) r ev)"
proof -
  from main_framed[of w0 e d] obtain evs where
    evs: "trace (snd (main e d w0)) = trace w0 @ evs"
      "\<forall>ev \<in> set evs. (\<exists>m. ev = Notification m) \<or>
          (\<exists>r. touched e d (sheet w0) r \<and> run_event e (sheet w0) r ev)"
    unfolding framed_def by (elim conjE exE) simp
  from evs(1) have "new_events w0 (snd (main e d w0)) = evs" by (simp add: new_events_def)
  with assms evs(2) show ?thesis by simp
qed

lemma main_untouched_events:
  assumes "\<not> touched e d (sheet w0) j"
    and "ev \<in> set (new_events w0 (snd (main e d w0)))"
  shows "event_row ev \<noteq> Some j"
proof -
  from main_events[OF assms(2)] show ?thesis
  proof
    assume "\<exists>m. ev = Notification m"
    then show ?thesis by auto
  next
    assume "\<exists>r. touched e d (sheet w0) r \<and> run_event e (sheet w0) r ev"
    then obtain r where r: "touched e d (sheet w0) r" "run_event e (sheet w0) r ev" by blast
    from run_event_row[OF r(2)] r(1) assms(1) show ?thesis by auto
  qed
qed

lemma sms_not_email_event: "sms_event rows r ev \<Longrightarrow> \<not> email_event e rows r' ev"
  by (auto simp: sms_event_def email_event_def STATUS_COL_IDX_def DATE_SENT_COL_IDX_def)

lemma touched_active:
  assumes "touched e d rows j" and "active_batch_indices (drop 1 rows) \<noteq> []"
  shows "get_status (rows ! j) = ''Email Sent'' \<and> sms_due e (rows ! j) j"
  using assms unfolding touched_def active_in_sheet by (auto split: if_splits)

lemma touched_new:
  assumes "touched e d rows j" and "active_batch_indices (drop 1 rows) = []"
  shows "j \<in> set (take BATCH_SIZE (eligible_indices (drop 1 rows))) \<and> has_contact (rows ! j)"
  using assms unfolding touched_def new_batch_indices_take by (auto split: if_splits)

lemma touched_status:
  assumes "touched e d rows j"
  shows "get_status (rows ! j) = ''Email Sent'' \<or> get_status (rows ! j) = ''New''
           \<or> get_status (rows ! j) = []"
proof (cases "active_batch_indices (drop 1 rows) = []")
  case True
  from touched_new[OF assms True] have "j \<in> set (eligible_indices (drop 1 rows))"
    by (auto dest: in_set_takeD)
  then show ?thesis by (simp only: eligible_in_sheet) blast
next
  case False
  from touched_active[OF assms False] show ?thesis by simp
qed

section \<open>Dry runs\<close>

text \<open>
  Claim C4. Whatever the sheet holds and whichever branch runs, a run with
  \<open>dry_run = True\<close> leaves the world as it found it: the sheet is the same and the
  trace has no new entry, so no cell was written, no message was posted to the messaging
  API and no notification was posted to the webhook.
\<close>

theorem dry_run_no_effect: "snd (main e True w0) = w0"
proof (rule main_invariant[where J = "\<lambda>w. w = w0"])
  fix r n
  from sms_step_idle[of True e "sheet w0" r n]
  show "preserves (\<lambda>w. w = w0) (sms_step e True (sheet w0) r n)"
    by (auto simp: preserves_ok preserves_raise)
next
  fix r n
  from email_step_idle[of True "sheet w0" r e n]
  show "preserves (\<lambda>w. w = w0) (email_step e True (sheet w0) r n)"
    by (auto simp: preserves_ok)
qed simp_all

section \<open>Branch exclusivity\<close>

text \<open>
  Claim C2. If some data row reads \<^verbatim>\<open>"Email Sent"\<close>, then a run leaves every row that
  reads \<^verbatim>\<open>"New"\<close> or \<^verbatim>\<open>""\<close> as it was, makes no call for such a row, and makes none of
  the calls of the new-batch step for any row: no email, no write of
  \<^verbatim>\<open>"Email Sent"\<close>, of a send date or of \<^verbatim>\<open>"Email Failed"\<close>.
\<close>

theorem branch_exclusivity:
  assumes "1 \<le> i" and "i < length (sheet w0)"
    and "get_status (sheet w0 ! i) = ''Email Sent''"
    and "get_status (sheet w0 ! j) = ''New'' \<or> get_status (sheet w0 ! j) = []"
  shows "sheet (snd (main e d w0)) ! j = sheet w0 ! j \<and>
         (\<forall>ev \<in> set (new_events w0 (snd (main e d w0))).
            event_row ev \<noteq> Some j \<and> (\<forall>r. \<not> email_event e (sheet w0) r ev))"
proof -
  from assms(1-3) have "i \<in> set (active_batch_indices (drop 1 (sheet w0)))"
    by (simp only: active_in_sheet)
  then have act: "active_batch_indices (drop 1 (sheet w0)) \<noteq> []" by auto
  have nt: "\<not> touched e d (sheet w0) j"
  proof
    assume "touched e d (sheet w0) j"
    from touched_active[OF this act] assms(4) show False by auto
  qed
  have "\<forall>r. \<not> email_event e (sheet w0) r ev"
    if ev: "ev \<in> set (new_events w0 (snd (main e d w0)))" for ev
  proof -
    from main_events[OF ev] show ?thesis
    proof
      assume "\<exists>m. ev = Notification m"
      then show ?thesis by (auto simp: email_event_def)
    next
      assume "\<exists>r. touched e d (sheet w0) r \<and> run_event e (sheet w0) r ev"
      then obtain r where "run_event e (sheet w0) r ev" by blast
      with act have "sms_event (sheet w0) r ev" by (simp add: run_event_def)
      then show ?thesis by (simp add: sms_not_email_event)
    qed
  qed
  with main_untouched_row[OF nt] main_untouched_events[OF nt] show ?thesis by blast
qed

theorem branch_exclusivity_witness:
  "get_status (sheet active_world ! 1) = ''Email Sent'' \<and>
   get_status (sheet active_world ! 4) = ''New'' \<and>
   sheet (snd (main sample_env False active_world)) ! 4 = sheet active_world ! 4 \<and>
   new_events active_world (snd (main sample_env False active_world)) \<noteq> []"
proof -
  have a: "(1::nat) \<le> 1" "1 < length (sheet active_world)"
    "get_status (sheet active_world ! 1) = ''Email Sent''"
    "get_status (sheet active_world ! 4) = ''New''"
    by code_simp+
  have b: "new_events active_world (snd (main sample_env False active_world)) \<noteq> []"
    by code_simp
  from branch_exclusivity[of 1 active_world 4 sample_env False] a b show ?thesis by blast
qed

section \<open>Rows that wait\<close>

text \<open>
  Claim C6. A row that reads \<^verbatim>\<open>"Email Sent"\<close> and whose send date parses to a time
  strictly later than the clock reading less \<open>DELAY_HOURS\<close> hours is skipped: after the
  run, dry or not, the whole row is as it was, so its status and its send date are
  unchanged, and the run made no call for it, neither a write nor a send.
\<close>

theorem recent_email_sent_row_skipped:
  assumes "get_status (sheet w0 ! j) = ''Email Sent''"
    and "get_date_sent (sheet w0 ! j) = Some s"
    and "fromisoformat e s = Some (Naive t)"
    and "now e j - timedelta_hours DELAY_HOURS < t"
  shows "sheet (snd (main e d w0)) ! j = sheet w0 ! j \<and>
         get_status (sheet (snd (main e d w0)) ! j) = ''Email Sent'' \<and>
         get_date_sent (sheet (snd (main e d w0)) ! j) = Some s \<and>
         (\<forall>ev \<in> set (new_events w0 (snd (main e d w0))). event_row ev \<noteq> Some j)"
proof -
  from assms(2-4) have nd: "\<not> sms_due e (sheet w0 ! j) j"
    by (simp add: sms_due_def)
  have nt: "\<not> touched e d (sheet w0) j"
  proof
    assume t: "touched e d (sheet w0) j"
    show False
    proof (cases "active_batch_indices (drop 1 (sheet w0)) = []")
      case True
      from touched_new[OF t True] have "j \<in> set (eligible_indices (drop 1 (sheet w0)))"
        by (auto dest: in_set_takeD)
      then have "get_status (sheet w0 ! j) = ''New'' \<or> get_status (sheet w0 ! j) = []"
        by (simp only: eligible_in_sheet)
      with assms(1) show False by auto
    next
      case False
      from touched_active[OF t False] nd show False by simp
    qed
  qed
  from main_untouched_row[OF nt] main_untouched_events[OF nt] assms(1,2)
  show ?thesis by simp
qed

theorem recent_email_sent_row_skipped_witness:
  "get_status (sheet active_world ! 3) = ''Email Sent'' \<and>
   get_date_sent (sheet active_world ! 3) = Some ''2024-03-02T20:00:00'' \<and>
   fromisoformat sample_env ''2024-03-02T20:00:00'' = Some (Naive 158400000000) \<and>
   now sample_env 3 - timedelta_hours DELAY_HOURS < 158400000000 \<and>
   sheet (snd (main sample_env False active_world)) ! 3 = sheet active_world ! 3 \<and>
   get_status (sheet (snd (main sample_env False active_world)) ! 1) = ''Done''"
proof -
  have a: "get_status (sheet active_world ! 3) = ''Email Sent''"
    "get_date_sent (sheet active_world ! 3) = Some ''2024-03-02T20:00:00''"
    "fromisoformat sample_env ''2024-03-02T20:00:00'' = Some (Naive 158400000000)"
    "now sample_env 3 - timedelta_hours DELAY_HOURS < 158400000000"
    by code_simp+
  have b: "get_status (sheet (snd (main sample_env False active_world)) ! 1) = ''Done''"
    by code_simp
  from recent_email_sent_row_skipped[of active_world 3 "''2024-03-02T20:00:00''" sample_env
      158400000000 False] a b
  show ?thesis by blast
qed

section \<open>Statuses move forward\<close>

text \<open>
  Claim C5. For every row, the status after a run is the status before it or an allowed
  move from it: from new to \<^verbatim>\<open>"Email Sent"\<close> or \<^verbatim>\<open>"Email Failed"\<close>, from
  \<^verbatim>\<open>"Email Sent"\<close> to \<^verbatim>\<open>"Done"\<close> or \<^verbatim>\<open>"SMS Failed"\<close>. This holds too for a run that
  an exception ends. A row that reads \<^verbatim>\<open>"Done"\<close>, \<^verbatim>\<open>"Email Failed"\<close> or
  \<^verbatim>\<open>"SMS Failed"\<close> is as it was after the run, and the run made no call for it.
\<close>

theorem status_moves_forward:
  "allowed_move (get_status (sheet w0 ! j)) (get_status (sheet (snd (main e d w0)) ! j)) \<and>
   (get_status (sheet w0 ! j) = ''Done'' \<or> get_status (sheet w0 ! j) = ''Email Failed''
      \<or> get_status (sheet w0 ! j) = ''SMS Failed'' \<longrightarrow>
    sheet (snd (main e d w0)) ! j = sheet w0 ! j \<and>
    (\<forall>ev \<in> set (new_events w0 (snd (main e d w0))). event_row ev \<noteq> Some j))"
proof (intro conjI impI)
  show "allowed_move (get_status (sheet w0 ! j)) (get_status (sheet (snd (main e d w0)) ! j))"
    by (rule main_status)
next
  assume t: "get_status (sheet w0 ! j) = ''Done'' \<or> get_status (sheet w0 ! j) = ''Email Failed''
      \<or> get_status (sheet w0 ! j) = ''SMS Failed''"
  have nt: "\<not> touched e d (sheet w0) j"
  proof
    assume "touched e d (sheet w0) j"
    from touched_status[OF this] t show False by auto
  qed
  from main_untouched_row[OF nt] show "sheet (snd (main e d w0)) ! j = sheet w0 ! j" .
  from main_untouched_events[OF nt]
  show "\<forall>ev \<in> set (new_events w0 (snd (main e d w0))). event_row ev \<noteq> Some j" by blast
qed

theorem status_moves_forward_witness:
  "get_status (sheet active_world ! 5) = ''Done'' \<and>
   sheet (snd (main sample_env False active_world)) ! 5 = sheet active_world ! 5 \<and>
   get_status (sheet active_world ! 2) = ''Email Sent'' \<and>
   get_status (sheet (snd (main sample_env False active_world)) ! 2) = ''SMS Failed'' \<and>
   allowed_move ''Email Sent'' ''SMS Failed''"
proof -
  have a: "get_status (sheet active_world ! 5) = ''Done''"
    "get_status (sheet active_world ! 2) = ''Email Sent''"
    "get_status (sheet (snd (main sample_env False active_world)) ! 2) = ''SMS Failed''"
    by code_simp+
  from status_moves_forward[of active_world 5 sample_env False] a(1)
  have b: "sheet (snd (main sample_env False active_world)) ! 5 = sheet active_world ! 5"
    by blast
  from status_moves_forward[of active_world 2 sample_env False] a(2,3)
  have c: "allowed_move ''Email Sent'' ''SMS Failed''" by simp
  from a b c show ?thesis by blast
qed

section \<open>How a status is read\<close>

text \<open>
  Claim C8, as the code has it. The status that is compared is the cell with the
  whitespace at both ends removed, as \<^verbatim>\<open>str.strip()\<close> removes it, an absent cell
  reading as the empty string; on that text the comparison is exact and sensitive to
  case. So a data row is active exactly when its stripped status cell is
  \<^verbatim>\<open>"Email Sent"\<close>, it counts as new exactly when its stripped status cell is
  \<^verbatim>\<open>"New"\<close> or empty, and the new batch is taken from the rows that count as new.
\<close>

theorem status_compared_after_strip:
  "get_status row = strip (status_cell row) \<and>
   (r \<in> set (active_batch_indices (drop 1 rows)) \<longleftrightarrow>
      1 \<le> r \<and> r < length rows \<and> strip (status_cell (rows ! r)) = ''Email Sent'') \<and>
   (r \<in> set (eligible_indices (drop 1 rows)) \<longleftrightarrow>
      1 \<le> r \<and> r < length rows \<and>
      (strip (status_cell (rows ! r)) = ''New'' \<or> strip (status_cell (rows ! r)) = [])) \<and>
   new_batch_indices (drop 1 rows) = take BATCH_SIZE (eligible_indices (drop 1 rows))"
  by (simp only: get_status_strip[symmetric] active_in_sheet eligible_in_sheet
      new_batch_indices_take simp_thms)

theorem status_compared_after_strip_witness:
  "status_cell (sheet padded_world ! 1) = [CHR 0xC2, CHR 0xA0] @ ''Email Sent '' \<and>
   strip (status_cell (sheet padded_world ! 1)) = ''Email Sent'' \<and>
   1 \<in> set (active_batch_indices (drop 1 (sheet padded_world)))"
proof -
  have a: "status_cell (sheet padded_world ! 1) = [CHR 0xC2, CHR 0xA0] @ ''Email Sent ''"
    "strip (status_cell (sheet padded_world ! 1)) = ''Email Sent''"
    "(1::nat) \<le> 1" "1 < length (sheet padded_world)"
    by code_simp+
  with status_compared_after_strip[of "sheet padded_world ! 1" 1 "sheet padded_world"]
  show ?thesis by blast
qed

text \<open>
  Claim C8, as stated, fails on a status cell with a no-break space before
  \<^verbatim>\<open>Email Sent\<close> and a space after it: the cell is not \<^verbatim>\<open>"Email Sent"\<close> character for
  character, yet its row is classified as active, and the run sends it the SMS and
  marks it \<^verbatim>\<open>"Done"\<close>.
\<close>

theorem padded_status_is_active:
  "status_cell (sheet padded_world ! 1) \<noteq> ''Email Sent'' \<and>
   active_batch_indices (drop 1 (sheet padded_world)) = [1] \<and>
   status_cell (sheet (snd (main sample_env False padded_world)) ! 1) = ''Done''"
  by code_simp

section \<open>The rows a run emails\<close>

lemma emailed_rows_append: "emailed_rows (xs @ ys) = emailed_rows xs @ emailed_rows ys"
  by (induction xs rule: emailed_rows.induct) simp_all


lemma mails_ok: "mails [] (ok x)"
  by (simp add: mails_def ok_def)

lemma mails_and_then:
  assumes "mails rs m" and "\<And>x. mails [] (f x)"
  shows "mails rs (and_then m f)"
  unfolding mails_def
proof
  fix w
  obtain res w' where m: "m w = (res, w')" by (cases "m w")
  from assms(1) m obtain evs where evs: "trace w' = trace w @ evs" "emailed_rows evs = rs"
    unfolding mails_def by (metis snd_conv)
  show "\<exists>evs. trace (snd (and_then m f w)) = trace w @ evs \<and> emailed_rows evs = rs"
  proof (cases res)
    case (Inl err)
    with m evs show ?thesis by (simp add: and_then_def)
  next
    case (Inr x)
    from assms(2)[of x] obtain evs' where
      evs': "trace (snd (f x w')) = trace w' @ evs'" "emailed_rows evs' = []"
      unfolding mails_def by blast
    have "trace (snd (and_then m f w)) = trace w @ (evs @ evs')"
      using m Inr evs(1) evs'(1) by (simp add: and_then_def)
    moreover have "emailed_rows (evs @ evs') = rs"
      using evs(2) evs'(2) by (simp add: emailed_rows_append)
    ultimately show ?thesis by blast
  qed
qed

lemma mails_try_except:
  assumes "mails rs m" and "\<And>err. mails [] (handler err)"
  shows "mails rs (try_except m handler)"
  unfolding mails_def
proof
  fix w
  obtain res w' where m: "m w = (res, w')" by (cases "m w")
  from assms(1) m obtain evs where evs: "trace w' = trace w @ evs" "emailed_rows evs = rs"
    unfolding mails_def by (metis snd_conv)
  show "\<exists>evs. trace (snd (try_except m handler w)) = trace w @ evs \<and> emailed_rows evs = rs"
  proof (cases res)
    case (Inr x)
    with m evs show ?thesis by (simp add: try_except_def)
  next
    case (Inl err)
    from assms(2)[of err] obtain evs' where
      evs': "trace (snd (handler err w')) = trace w' @ evs'" "emailed_rows evs' = []"
      unfolding mails_def by blast
    have "trace (snd (try_except m handler w)) = trace w @ (evs @ evs')"
      using m Inl evs(1) evs'(1) by (simp add: try_except_def)
    moreover have "emailed_rows (evs @ evs') = rs"
      using evs(2) evs'(2) by (simp add: emailed_rows_append)
    ultimately show ?thesis by blast
  qed
qed

lemma mails_update_cell: "mails [] (update_cell e t r c v)"
  unfolding mails_def
proof
  fix w
  have "trace (snd (update_cell e t r c v w)) = trace w @ [Update_cell t r c v]"
    by (simp add: update_cell_def Let_def)
  then show "\<exists>evs. trace (snd (update_cell e t r c v w)) = trace w @ evs \<and> emailed_rows evs = []"
    by (intro exI[of _ "[Update_cell t r c v]"]) simp
qed

lemma mails_send_email:
  "mails [r] (send_ghl_message e r cid Email b (Some EMAIL_SUBJECT))"
  unfolding mails_def
proof
  fix w
  have "trace (snd (send_ghl_message e r cid Email b (Some EMAIL_SUBJECT) w)) =
          trace w @ [Ghl_message r cid Email b (Some EMAIL_SUBJECT)]"
    by (simp add: send_ghl_message_def EMAIL_SUBJECT_def Let_def
        split: option.splits prod.splits)
  then show "\<exists>evs. trace (snd (send_ghl_message e r cid Email b (Some EMAIL_SUBJECT) w)) =
                 trace w @ evs \<and> emailed_rows evs = [r]"
    by (intro exI[of _ "[Ghl_message r cid Email b (Some EMAIL_SUBJECT)]"]) simp
qed

lemma mails_email_step:
  "mails (if \<not> d \<and> has_contact (rows ! r) then [r] else []) (email_step e d rows r n)"
proof (cases "\<not> d \<and> has_contact (rows ! r)")
  case False
  from email_step_idle[OF False, of e n] False show ?thesis
    by (auto simp: mails_ok)
next
  case True
  then have d: "\<not> d" and c: "has_contact (rows ! r)" by simp_all
  have "mails [r] (email_step e d rows r n)"
    unfolding email_step_due[OF d c] update_status_plain update_status_dated
    by (intro mails_try_except mails_and_then mails_ok mails_update_cell mails_send_email)
  with True show ?thesis by simp
qed

text \<open>
  A loop whose body mails the row it handles when \<open>P\<close> holds of it, and nothing
  otherwise, mails the \<open>P\<close>-rows among those it gets to: all of them when it returns.
\<close>

lemma for_each_mails:
  assumes "\<And>r n. mails (if P r then [r] else []) (body r n)"
  shows "\<exists>evs k. trace (snd (for_each body rs n w)) = trace w @ evs \<and>
           emailed_rows evs = filter P (take k rs) \<and>
           ((\<exists>x. fst (for_each body rs n w) = Inr x) \<longrightarrow> emailed_rows evs = filter P rs)"
proof (induction rs arbitrary: n w)
  case Nil
  show ?case by (simp add: ok_def)
next
  case (Cons r rs)
  obtain res w1 where b: "body r n w = (res, w1)" by (cases "body r n w")
  from assms[of r n] b obtain evs1 where
    evs1: "trace w1 = trace w @ evs1" "emailed_rows evs1 = (if P r then [r] else [])"
    unfolding mails_def by (metis snd_conv)
  show ?case
  proof (cases res)
    case (Inl err)
    have "trace (snd (for_each body (r # rs) n w)) = trace w @ evs1"
      using b Inl evs1(1) by (simp add: and_then_def)
    moreover have "emailed_rows evs1 = filter P (take 1 (r # rs))"
      using evs1(2) by simp
    moreover have "\<not> (\<exists>x. fst (for_each body (r # rs) n w) = Inr x)"
      using b Inl by (simp add: and_then_def)
    ultimately show ?thesis by blast
  next
    case (Inr x)
    from Cons.IH[of x w1] obtain evs2 k where
      t: "trace (snd (for_each body rs x w1)) = trace w1 @ evs2" and
      m: "emailed_rows evs2 = filter P (take k rs)" and
      f: "(\<exists>y. fst (for_each body rs x w1) = Inr y) \<longrightarrow> emailed_rows evs2 = filter P rs"
      by blast
    have step: "for_each body (r # rs) n w = for_each body rs x w1"
      using b Inr by (simp add: and_then_def)
    have 1: "trace (snd (for_each body (r # rs) n w)) = trace w @ (evs1 @ evs2)"
      using step t evs1(1) by simp
    have 2: "emailed_rows (evs1 @ evs2) = filter P (take (Suc k) (r # rs))"
      using evs1(2) m by (simp add: emailed_rows_append)
    have 3: "(\<exists>y. fst (for_each body (r # rs) n w) = Inr y) \<longrightarrow>
               emailed_rows (evs1 @ evs2) = filter P (r # rs)"
      using step f evs1(2) by (simp add: emailed_rows_append)
    from 1 2 3 show ?thesis by blast
  qed
qed

lemma snd_then_notify:
  "fst (m w) = Inr x \<Longrightarrow>
     trace (snd (and_then m (\<lambda>c. if 0 < c then (if b then send_notification (msg c) else ok ())
                                  else ok ()) w)) = trace (snd (m w)) \<or>
     (\<exists>t. trace (snd (and_then m (\<lambda>c. if 0 < c then (if b then send_notification (msg c)
                                                     else ok ()) else ok ()) w))
            = trace (snd (m w)) @ [Notification t])"
  by (cases "m w") (simp add: and_then_def send_notification_def ok_def)

lemma fst_then_notify:
  "fst (and_then m (\<lambda>c. if 0 < c then (if b then send_notification (msg c) else ok ())
                         else ok ()) w) = Inr () \<longleftrightarrow> (\<exists>x. fst (m w) = Inr x)"
  by (cases "m w"; cases "fst (m w)")
     (simp_all add: and_then_def send_notification_def ok_def)

lemma snd_then_raise:
  "fst (m w) = Inl err \<Longrightarrow> snd (and_then m f w) = snd (m w)"
  by (cases "m w") (simp add: and_then_def)

text \<open>
  In the new-batch branch, a run that is not dry emails the rows of the batch that have
  a contact id, in order, up to the row at which an exception ends it; all of them when
  it returns.
\<close>

lemma main_emailed:
  assumes act: "active_batch_indices (drop 1 (sheet w0)) = []"
  shows "\<exists>k. emailed_rows (new_events w0 (snd (main e False w0))) =
               filter (\<lambda>r. has_contact (sheet w0 ! r))
                 (take k (new_batch_indices (drop 1 (sheet w0)))) \<and>
             (fst (main e False w0) = Inr () \<longrightarrow>
                emailed_rows (new_events w0 (snd (main e False w0))) =
                  filter (\<lambda>r. has_contact (sheet w0 ! r)) (new_batch_indices (drop 1 (sheet w0))))"
proof -
  let ?P = "\<lambda>r. has_contact (sheet w0 ! r)"
  let ?batch = "new_batch_indices (drop 1 (sheet w0))"
  let ?loop = "for_each (email_step e False (sheet w0)) ?batch 0"
  let ?note = "\<lambda>c. ''Started new batch. Sent Email to '' @ str_nat c @ '' contacts.''"
  let ?run = "and_then ?loop
                (\<lambda>c. if 0 < c then (if True then send_notification (?note c) else ok ())
                      else ok ())"
  show ?thesis
  proof (cases "read_ok e \<and> sheet w0 \<noteq> [] \<and> ?batch \<noteq> []")
    case False
    then have "snd (main e False w0) = w0 \<and> (fst (main e False w0) = Inr () \<longrightarrow> ?batch = [])"
      using act
      by (auto simp: main_def and_then_def read_all_rows_def ok_def Let_def new_batch_indices_def)
    then have "emailed_rows (new_events w0 (snd (main e False w0))) = filter ?P (take 0 ?batch)"
      and "fst (main e False w0) = Inr () \<longrightarrow>
             emailed_rows (new_events w0 (snd (main e False w0))) = filter ?P ?batch"
      by (auto simp: new_events_def)
    then show ?thesis by blast
  next
    case True
    then have m: "main e False w0 = ?run w0"
      using act
      by (simp add: main_def and_then_def read_all_rows_def Let_def cong del: if_weak_cong)
    have "\<And>r n. mails (if ?P r then [r] else []) (email_step e False (sheet w0) r n)"
      using mails_email_step[of False "sheet w0" _ e] by simp
    from for_each_mails[of ?P "email_step e False (sheet w0)" ?batch 0 w0, OF this]
    obtain evs k where
      t: "trace (snd (?loop w0)) = trace w0 @ evs" and
      mk: "emailed_rows evs = filter ?P (take k ?batch)" and
      f: "(\<exists>x. fst (?loop w0) = Inr x) \<longrightarrow> emailed_rows evs = filter ?P ?batch"
      by blast
    have same: "emailed_rows (new_events w0 (snd (?run w0))) = emailed_rows evs"
    proof (cases "fst (?loop w0)")
      case (Inl err)
      have "snd (?run w0) = snd (?loop w0)"
        by (rule snd_then_raise[where m = "?loop" and w = w0, OF Inl])
      then have tr: "trace (snd (?run w0)) = trace w0 @ evs"
        using t by (simp only:)
      show ?thesis unfolding new_events_def tr by simp
    next
      case (Inr x)
      from snd_then_notify[where m = "?loop" and w = w0 and b = True and msg = "?note", OF Inr]
      have "\<exists>evs'. trace (snd (?run w0)) = trace (snd (?loop w0)) @ evs' \<and>
                   emailed_rows evs' = []"
      proof
        assume a: "trace (snd (?run w0)) = trace (snd (?loop w0))"
        show ?thesis by (rule exI[of _ "[]"]) (simp only: a, simp)
      next
        assume "\<exists>tt. trace (snd (?run w0)) = trace (snd (?loop w0)) @ [Notification tt]"
        then obtain tt where
          a: "trace (snd (?run w0)) = trace (snd (?loop w0)) @ [Notification tt]" ..
        show ?thesis by (rule exI[of _ "[Notification tt]"]) (simp only: a, simp)
      qed
      then obtain evs' where
        e: "trace (snd (?run w0)) = trace (snd (?loop w0)) @ evs'" "emailed_rows evs' = []"
        by blast
      have tr: "trace (snd (?run w0)) = trace w0 @ (evs @ evs')"
        unfolding e(1) t by simp
      show ?thesis unfolding new_events_def tr using e(2) by (simp add: emailed_rows_append)
    qed
    have fin: "fst (?run w0) = Inr () \<longleftrightarrow> (\<exists>x. fst (?loop w0) = Inr x)"
      by (rule fst_then_notify[where m = "?loop" and w = w0 and b = True and msg = "?note"])
    from same mk f fin show ?thesis unfolding m by auto
  qed
qed

section \<open>Runs that return\<close>

lemma returns_ok: "returns (ok x)"
  by (simp add: returns_def ok_def)

lemma returns_and_then:
  assumes "returns m" and "\<And>x. returns (f x)"
  shows "returns (and_then m f)"
  unfolding returns_def
proof
  fix w
  from assms(1) obtain x where x: "fst (m w) = Inr x" unfolding returns_def by blast
  obtain w' where m: "m w = (Inr x, w')" using x by (cases "m w") simp
  from assms(2)[of x] obtain y where "fst (f x w') = Inr y" unfolding returns_def by blast
  with m show "\<exists>y. fst (and_then m f w) = Inr y" by (simp add: and_then_def)
qed

lemma returns_try_except:
  assumes "\<And>err. returns (handler err)"
  shows "returns (try_except m handler)"
  unfolding returns_def
proof
  fix w
  obtain res w' where m: "m w = (res, w')" by (cases "m w")
  show "\<exists>y. fst (try_except m handler w) = Inr y"
  proof (cases res)
    case (Inr x)
    with m show ?thesis by (simp add: try_except_def)
  next
    case (Inl err)
    from assms[of err] obtain y where "fst (handler err w') = Inr y"
      unfolding returns_def by blast
    with m Inl show ?thesis by (simp add: try_except_def)
  qed
qed

lemma returns_update_cell: "write_ok e r c v \<Longrightarrow> returns (update_cell e t r c v)"
  by (simp add: returns_def update_cell_def Let_def)

lemma returns_send_notification: "returns (send_notification msg)"
  by (simp add: returns_def send_notification_def)

lemma returns_for_each:
  assumes "\<And>r n. returns (body r n)"
  shows "returns (for_each body rs n)"
proof (induction rs arbitrary: n)
  case Nil
  show ?case by (simp add: returns_ok)
next
  case (Cons r rs)
  have "returns (and_then (body r n) (for_each body rs))"
    by (rule returns_and_then) (rule assms, rule Cons.IH)
  then show ?case by simp
qed

lemma returns_email_step:
  assumes "\<And>r c v. write_ok e r c v"
  shows "returns (email_step e d rows r n)"
proof (cases "\<not> d \<and> has_contact (rows ! r)")
  case False
  from email_step_idle[OF False, of e n] show ?thesis by (auto simp: returns_ok)
next
  case True
  then have d: "\<not> d" and c: "has_contact (rows ! r)" by simp_all
  show ?thesis
    unfolding email_step_due[OF d c] update_status_plain
    by (intro returns_try_except returns_and_then returns_ok returns_update_cell assms)
qed

text \<open>
  With a spreadsheet service that works, a run of the new-batch branch returns: a
  failed send is caught, and the write of the failure status goes through.
\<close>

lemma main_returns_new:
  assumes rd: "read_ok e" and wr: "\<And>r c v. write_ok e r c v"
    and act: "active_batch_indices (drop 1 (sheet w0)) = []"
  shows "fst (main e d w0) = Inr ()"
proof -
  let ?loop = "for_each (email_step e d (sheet w0)) (new_batch_indices (drop 1 (sheet w0))) 0"
  have "returns
     (and_then ?loop
        (\<lambda>new_batch_count.
            if new_batch_count > 0 then
              (if \<not> d
               then send_notification (''Started new batch. Sent Email to ''
                                        @ str_nat new_batch_count @ '' contacts.'')
               else ok ())
            else ok ()))"
    by (intro returns_and_then returns_for_each returns_email_step wr)
       (simp add: returns_ok returns_send_notification)
  then have "fst (and_then ?loop
        (\<lambda>new_batch_count.
            if new_batch_count > 0 then
              (if \<not> d
               then send_notification (''Started new batch. Sent Email to ''
                                        @ str_nat new_batch_count @ '' contacts.'')
               else ok ())
            else ok ()) w0) = Inr ()"
    unfolding returns_def by simp
  with rd act show ?thesis
    by (simp add: main_def and_then_def[of "read_all_rows e"] read_all_rows_def Let_def ok_def
        cong del: if_weak_cong)
qed

section \<open>The new batch\<close>

text \<open>
  Claim C3. The new batch is the first \<open>BATCH_SIZE\<close> = 30 of the data rows that read
  \<^verbatim>\<open>"New"\<close> or \<^verbatim>\<open>""\<close>, in row order, so it never has more than 30 rows. When no row
  is active, a run that is not dry emails rows of this batch only: those with a contact
  id, in row order, up to the row at which an exception ends the run, and all of them
  when the run returns. Whatever the branch and the mode, a run leaves every later row
  that reads \<^verbatim>\<open>"New"\<close> or \<^verbatim>\<open>""\<close> as it was and makes no call for it.
\<close>

theorem new_batch_is_first_eligible:
  "new_batch_indices data_rows = take BATCH_SIZE (eligible_indices data_rows) \<and>
   length (new_batch_indices data_rows) \<le> BATCH_SIZE \<and> BATCH_SIZE = 30 \<and>
   (active_batch_indices (drop 1 (sheet w0)) = [] \<longrightarrow>
      (\<exists>k. emailed_rows (new_events w0 (snd (main e False w0))) =
             filter (\<lambda>r. has_contact (sheet w0 ! r))
               (take k (take BATCH_SIZE (eligible_indices (drop 1 (sheet w0)))))) \<and>
      (fst (main e False w0) = Inr () \<longrightarrow>
         emailed_rows (new_events w0 (snd (main e False w0))) =
           filter (\<lambda>r. has_contact (sheet w0 ! r))
             (take BATCH_SIZE (eligible_indices (drop 1 (sheet w0)))))) \<and>
   (\<forall>j \<in> set (drop BATCH_SIZE (eligible_indices (drop 1 (sheet w0)))).
      sheet (snd (main e d w0)) ! j = sheet w0 ! j \<and>
      (\<forall>ev \<in> set (new_events w0 (snd (main e d w0))). event_row ev \<noteq> Some j))"
proof -
  let ?el = "eligible_indices (drop 1 (sheet w0))"
  have sel: "new_batch_indices data_rows = take BATCH_SIZE (eligible_indices data_rows)"
    by (rule new_batch_indices_take)
  have len: "length (new_batch_indices data_rows) \<le> BATCH_SIZE"
    unfolding sel by simp
  have run: "(\<exists>k. emailed_rows (new_events w0 (snd (main e False w0))) =
             filter (\<lambda>r. has_contact (sheet w0 ! r)) (take k (take BATCH_SIZE ?el))) \<and>
      (fst (main e False w0) = Inr () \<longrightarrow>
         emailed_rows (new_events w0 (snd (main e False w0))) =
           filter (\<lambda>r. has_contact (sheet w0 ! r)) (take BATCH_SIZE ?el))"
    if act: "active_batch_indices (drop 1 (sheet w0)) = []"
    using main_emailed[OF act, of e] unfolding new_batch_indices_take by blast
  have later: "sheet (snd (main e d w0)) ! j = sheet w0 ! j \<and>
      (\<forall>ev \<in> set (new_events w0 (snd (main e d w0))). event_row ev \<noteq> Some j)"
    if j: "j \<in> set (drop BATCH_SIZE ?el)" for j
  proof -
    from j have el: "j \<in> set ?el" by (rule in_set_dropD)
    then have st: "get_status (sheet w0 ! j) = ''New'' \<or> get_status (sheet w0 ! j) = []"
      by (simp only: eligible_in_sheet)
    have disj: "set (take BATCH_SIZE ?el) \<inter> set (drop BATCH_SIZE ?el) = {}"
      by (rule set_take_disj_set_drop_if_distinct[OF distinct_eligible]) simp
    have nt: "\<not> touched e d (sheet w0) j"
    proof
      assume t: "touched e d (sheet w0) j"
      show False
      proof (cases "active_batch_indices (drop 1 (sheet w0)) = []")
        case True
        from touched_new[OF t True] j disj show False by blast
      next
        case False
        from touched_active[OF t False] st show False by auto
      qed
    qed
    from main_untouched_row[OF nt] main_untouched_events[OF nt] show ?thesis by simp
  qed
  have cap: "BATCH_SIZE = 30" by (simp add: BATCH_SIZE_def)
  from sel len cap run later show ?thesis by blast
qed

theorem new_batch_is_first_eligible_witness:
  "active_batch_indices (drop 1 (sheet crowded_world)) = [] \<and>
   fst (main sample_env False crowded_world) = Inr () \<and>
   length (eligible_indices (drop 1 (sheet crowded_world))) = 32 \<and>
   emailed_rows (new_events crowded_world (snd (main sample_env False crowded_world)))
     = [2..<31] \<and>
   sheet (snd (main sample_env False crowded_world)) ! 32 = sheet crowded_world ! 32"
proof -
  have act: "active_batch_indices (drop 1 (sheet crowded_world)) = []"
    by code_simp
  have n: "length (eligible_indices (drop 1 (sheet crowded_world))) = 32"
    by code_simp
  have f: "filter (\<lambda>r. has_contact (sheet crowded_world ! r))
             (take BATCH_SIZE (eligible_indices (drop 1 (sheet crowded_world)))) = [2..<31]"
    by code_simp
  have l: "32 \<in> set (drop BATCH_SIZE (eligible_indices (drop 1 (sheet crowded_world))))"
    by code_simp
  have ret: "fst (main sample_env False crowded_world) = Inr ()"
    by (rule main_returns_new[OF _ _ act]) (simp_all add: sample_env_def)
  from new_batch_is_first_eligible[of "drop 1 (sheet crowded_world)" crowded_world sample_env
      False] act ret l
  have "emailed_rows (new_events crowded_world (snd (main sample_env False crowded_world)))
          = filter (\<lambda>r. has_contact (sheet crowded_world ! r))
             (take BATCH_SIZE (eligible_indices (drop 1 (sheet crowded_world))))"
    and "sheet (snd (main sample_env False crowded_world)) ! 32 = sheet crowded_world ! 32"
    by blast+
  with act ret n f show ?thesis by simp
qed

section \<open>Capacity of a batch\<close>

text \<open>
  Claim C10. When no row is active, the rows a run emails and the rows of the batch
  without a contact id together are at most the batch, and exactly the batch when the
  run returns; the batch has \<open>BATCH_SIZE\<close> rows when that many read \<^verbatim>\<open>"New"\<close> or
  \<^verbatim>\<open>""\<close>, else all of them. So a selected row that is skipped for its missing
  contact id uses up one place of the batch. No row past the first \<open>BATCH_SIZE\<close> rows
  that read \<^verbatim>\<open>"New"\<close> or \<^verbatim>\<open>""\<close> is emailed.
\<close>

theorem capacity_used_at_selection:
  assumes "active_batch_indices (drop 1 (sheet w0)) = []"
  shows "length (emailed_rows (new_events w0 (snd (main e False w0)))) +
           length (filter (\<lambda>r. \<not> has_contact (sheet w0 ! r))
                     (new_batch_indices (drop 1 (sheet w0))))
           \<le> length (new_batch_indices (drop 1 (sheet w0))) \<and>
         (fst (main e False w0) = Inr () \<longrightarrow>
            length (emailed_rows (new_events w0 (snd (main e False w0)))) +
              length (filter (\<lambda>r. \<not> has_contact (sheet w0 ! r))
                        (new_batch_indices (drop 1 (sheet w0))))
              = length (new_batch_indices (drop 1 (sheet w0)))) \<and>
         length (new_batch_indices (drop 1 (sheet w0))) =
           min BATCH_SIZE (length (eligible_indices (drop 1 (sheet w0)))) \<and>
         set (emailed_rows (new_events w0 (snd (main e False w0)))) \<inter>
           set (drop BATCH_SIZE (eligible_indices (drop 1 (sheet w0)))) = {}"
proof -
  let ?P = "\<lambda>r. has_contact (sheet w0 ! r)"
  let ?batch = "new_batch_indices (drop 1 (sheet w0))"
  let ?el = "eligible_indices (drop 1 (sheet w0))"
  let ?sent = "emailed_rows (new_events w0 (snd (main e False w0)))"
  from main_emailed[OF assms, of e] obtain k where
    k: "?sent = filter ?P (take k ?batch)" and
    full: "fst (main e False w0) = Inr () \<longrightarrow> ?sent = filter ?P ?batch"
    by blast
  have split: "length (filter ?P ?batch) + length (filter (\<lambda>r. \<not> ?P r) ?batch) = length ?batch"
    by (rule sum_length_filter_compl)
  have "filter ?P ?batch = filter ?P (take k ?batch) @ filter ?P (drop k ?batch)"
    by (simp only: filter_append[symmetric] append_take_drop_id)
  then have "length (filter ?P (take k ?batch)) \<le> length (filter ?P ?batch)"
    by simp
  with k split have 1: "length ?sent + length (filter (\<lambda>r. \<not> ?P r) ?batch) \<le> length ?batch"
    by simp
  from full split have 2: "fst (main e False w0) = Inr () \<longrightarrow>
      length ?sent + length (filter (\<lambda>r. \<not> ?P r) ?batch) = length ?batch"
    by simp
  have 3: "length ?batch = min BATCH_SIZE (length ?el)"
    by (simp add: new_batch_indices_take min.commute)
  have "set ?sent \<subseteq> set ?batch"
    unfolding k using set_take_subset[of k ?batch] by auto
  then have "set ?sent \<subseteq> set (take BATCH_SIZE ?el)"
    by (simp only: new_batch_indices_take)
  moreover have "set (take BATCH_SIZE ?el) \<inter> set (drop BATCH_SIZE ?el) = {}"
    by (rule set_take_disj_set_drop_if_distinct[OF distinct_eligible]) simp
  ultimately have 4: "set ?sent \<inter> set (drop BATCH_SIZE ?el) = {}" by blast
  from 1 2 3 4 show ?thesis by blast
qed

theorem capacity_used_at_selection_witness:
  "active_batch_indices (drop 1 (sheet crowded_world)) = [] \<and>
   fst (main sample_env False crowded_world) = Inr () \<and>
   length (filter (\<lambda>r. has_contact (sheet crowded_world ! r))
             (eligible_indices (drop 1 (sheet crowded_world)))) = 31 \<and>
   length (new_batch_indices (drop 1 (sheet crowded_world))) = 30 \<and>
   length (emailed_rows (new_events crowded_world (snd (main sample_env False crowded_world))))
     = 29"
proof -
  have act: "active_batch_indices (drop 1 (sheet crowded_world)) = []"
    by code_simp
  have c: "length (filter (\<lambda>r. has_contact (sheet crowded_world ! r))
             (eligible_indices (drop 1 (sheet crowded_world)))) = 31"
    by code_simp
  have s: "length (filter (\<lambda>r. \<not> has_contact (sheet crowded_world ! r))
             (new_batch_indices (drop 1 (sheet crowded_world)))) = 1"
    by code_simp
  have b: "length (new_batch_indices (drop 1 (sheet crowded_world))) = 30"
    by code_simp
  have ret: "fst (main sample_env False crowded_world) = Inr ()"
    by (rule main_returns_new[OF _ _ act]) (simp_all add: sample_env_def)
  from capacity_used_at_selection[OF act, of sample_env] ret
  have "length (emailed_rows (new_events crowded_world
                  (snd (main sample_env False crowded_world)))) +
          length (filter (\<lambda>r. \<not> has_contact (sheet crowded_world ! r))
                    (new_batch_indices (drop 1 (sheet crowded_world))))
          = length (new_batch_indices (drop 1 (sheet crowded_world)))"
    by blast
  with s b have "length (emailed_rows (new_events crowded_world
                  (snd (main sample_env False crowded_world)))) = 29"
    by simp
  with act ret c b show ?thesis by blast
qed

section \<open>The first name in a message\<close>



section \<open>The send date of an email\<close>

lemma get_date_sent_put_date:
  "get_date_sent (put [] row DATE_SENT_COL_IDX v) = Some (strip v)"
  by (simp add: get_date_sent_def put_length put_nth_same less_max_iff_disj)

text \<open>
  Claim C7, as the code has it. When the email request for a row with a contact id is
  accepted, the step calls \<^verbatim>\<open>update_cell\<close> twice, first for the status cell with
  \<^verbatim>\<open>"Email Sent"\<close> and then for the date cell with the clock reading in ISO format.
  When both writes go through, the step counts the row, the row reads
  \<^verbatim>\<open>"Email Sent"\<close> with that date, and nothing else of the sheet has changed.
\<close>

theorem email_sent_then_date:
  assumes "r < length (sheet w)" and "has_contact (rows ! r)"
    and "http_post e r = Some (code, True)" and "code = 200 \<or> code = 201"
    and "write_ok e r STATUS_COL_IDX ''Email Sent''"
    and "write_ok e r DATE_SENT_COL_IDX (isoformat e (now e r))"
  shows "fst (email_step e False rows r n w) = Inr (n + 1) \<and>
         new_events w (snd (email_step e False rows r n w)) =
           [Ghl_message r (contact_of (rows ! r)) Email
              (EMAIL_BODY_TEMPLATE_format (get_first_name (rows ! r))) (Some EMAIL_SUBJECT),
            Update_cell TAB_NAME r STATUS_COL_IDX ''Email Sent'',
            Update_cell TAB_NAME r DATE_SENT_COL_IDX (isoformat e (now e r))] \<and>
         sheet (snd (email_step e False rows r n w)) =
           (sheet w)[r := put [] (put [] (sheet w ! r) STATUS_COL_IDX ''Email Sent'')
                            DATE_SENT_COL_IDX (isoformat e (now e r))] \<and>
         get_status (sheet (snd (email_step e False rows r n w)) ! r) = ''Email Sent'' \<and>
         get_date_sent (sheet (snd (email_step e False rows r n w)) ! r) =
           Some (strip (isoformat e (now e r)))"
proof -
  let ?msg = "Ghl_message r (contact_of (rows ! r)) Email
              (EMAIL_BODY_TEMPLATE_format (get_first_name (rows ! r))) (Some EMAIL_SUBJECT)"
  let ?ts = "isoformat e (now e r)"
  let ?w1 = "w\<lparr>trace := trace w @ [?msg]\<rparr>"
  let ?w2 = "?w1\<lparr>trace := trace ?w1 @ [Update_cell TAB_NAME r STATUS_COL_IDX ''Email Sent''],
                  sheet := (sheet w)[r := put [] (sheet w ! r) STATUS_COL_IDX ''Email Sent'']\<rparr>"
  let ?w3 = "?w2\<lparr>trace := trace ?w2 @ [Update_cell TAB_NAME r DATE_SENT_COL_IDX ?ts],
                  sheet := (sheet ?w2)[r := put [] (sheet ?w2 ! r) DATE_SENT_COL_IDX ?ts]\<rparr>"
  have send: "send_ghl_message e r (contact_of (rows ! r)) Email
              (EMAIL_BODY_TEMPLATE_format (get_first_name (rows ! r))) (Some EMAIL_SUBJECT) w
              = (Inr (), ?w1)"
    using assms(3,4) by (auto simp: send_ghl_message_def EMAIL_SUBJECT_def Let_def)
  have first: "update_cell e TAB_NAME r STATUS_COL_IDX ''Email Sent'' ?w1 = (Inr (), ?w2)"
    using assms(1,5) by (simp add: update_cell_def Let_def row_at_def put_in_range)
  have second: "update_cell e TAB_NAME r DATE_SENT_COL_IDX ?ts ?w2 = (Inr (), ?w3)"
    using assms(1,6) by (simp add: update_cell_def Let_def row_at_def put_in_range)
  have step: "email_step e False rows r n w = (Inr (n + 1), ?w3)"
    unfolding email_step_due[OF _ assms(2), of False, simplified] update_status_dated
    by (simp only: try_except_def and_then_def send first second ok_def prod.case sum.case)
       simp
  show ?thesis
    unfolding step using assms(1)
    by (simp add: new_events_def get_status_put_date get_status_put_status strip_consts
        get_date_sent_put_date)
qed

theorem email_sent_then_date_witness:
  "has_contact (sheet single_world ! 1) \<and>
   fst (email_step sample_env False (sheet single_world) 1 0 single_world) = Inr 1 \<and>
   get_status (sheet (snd (email_step sample_env False (sheet single_world) 1 0 single_world))
                ! 1) = ''Email Sent'' \<and>
   get_date_sent (sheet (snd (email_step sample_env False (sheet single_world) 1 0
                                single_world)) ! 1)
     = Some (strip (isoformat sample_env (now sample_env 1)))"
proof -
  have a: "1 < length (sheet single_world)" "has_contact (sheet single_world ! 1)"
    "http_post sample_env 1 = Some (200, True)"
    "write_ok sample_env 1 STATUS_COL_IDX ''Email Sent''"
    "write_ok sample_env 1 DATE_SENT_COL_IDX (isoformat sample_env (now sample_env 1))"
    by code_simp+
  have c: "(200::nat) = 200 \<or> (200::nat) = 201" by simp
  from email_sent_then_date[of 1 single_world "sheet single_world" sample_env 200 0,
      OF a(1-3) c a(4,5)]
  have "fst (email_step sample_env False (sheet single_world) 1 0 single_world) = Inr (0 + 1)"
    and "get_status (sheet (snd (email_step sample_env False (sheet single_world) 1 0
                                   single_world)) ! 1) = ''Email Sent''"
    and "get_date_sent (sheet (snd (email_step sample_env False (sheet single_world) 1 0
                                      single_world)) ! 1)
           = Some (strip (isoformat sample_env (now sample_env 1)))"
    by blast+
  with a(2) show ?thesis by simp
qed

text \<open>
  Claim C7, as stated, fails: the two cells are written by two calls, and the sheet
  between them has the status without the date. With a spreadsheet service that accepts
  the status write and fails on the writes after it, that state is the one the run
  leaves: the date write raises, the handler's write of \<^verbatim>\<open>"Email Failed"\<close> raises too
  and ends the run, and the row reads \<^verbatim>\<open>"Email Sent"\<close> with an empty date.
\<close>

theorem email_sent_without_date:
  "get_status (sheet (snd (update_cell sample_env TAB_NAME 1 STATUS_COL_IDX ''Email Sent''
                             single_world)) ! 1) = ''Email Sent'' \<and>
   get_date_sent (sheet (snd (update_cell sample_env TAB_NAME 1 STATUS_COL_IDX ''Email Sent''
                                single_world)) ! 1) = Some [] \<and>
   fst (main failing_sheets_env False single_world) = Inl SheetsError \<and>
   get_status (sheet (snd (main failing_sheets_env False single_world)) ! 1) = ''Email Sent'' \<and>
   get_date_sent (sheet (snd (main failing_sheets_env False single_world)) ! 1) = Some []"
  by code_simp

section \<open>A send date with a time zone\<close>

text \<open>
  Claim C1 on a sheet with two active rows, both with a contact id and a send date more
  than 24 hours old, the first date carrying a UTC offset. The date of the first row
  parses, subtracting it from the clock reading raises \<^verbatim>\<open>TypeError\<close>, nothing catches
  it, and the run ends there: no SMS is sent, no cell is written, and the second row,
  whose date has no offset, still reads \<^verbatim>\<open>"Email Sent"\<close>.
\<close>

theorem aware_date_ends_run:
  "get_status (sheet aware_world ! 2) = ''Email Sent'' \<and>
   has_contact (sheet aware_world ! 2) \<and>
   get_date_sent (sheet aware_world ! 2) = Some ''2024-03-01T09:00:00'' \<and>
   fromisoformat sample_env ''2024-03-01T09:00:00'' = Some (Naive 32400000000) \<and>
   32400000000 \<le> now sample_env 2 - timedelta_hours DELAY_HOURS \<and>
   http_post sample_env 2 = Some (500, True) \<and>
   fst (main sample_env False aware_world) = Inl TypeError \<and>
   snd (main sample_env False aware_world) = aware_world \<and>
   get_status (sheet (snd (main sample_env False aware_world)) ! 2) = ''Email Sent''"
  by code_simp

end
